theory Spec2Isabelle
  imports Main "HOL-Library.Word"
begin

unbundle bit_operations_syntax

section \<open>JavaScript strings\<close>

text \<open>
  A JavaScript string is a sequence of UTF-16 code units; \<open>length\<close>, \<open>charCodeAt\<close>,
  \<open>===\<close> and the regular expressions without the \<open>u\<close> flag all work on code units.
  \<open>js\<close> embeds an ASCII literal.
\<close>

type_synonym code_unit = "16 word"
type_synonym js_string = "code_unit list"

definition js :: "string \<Rightarrow> js_string" where
  "js s = map of_char s"

text \<open>\<open>s.charCodeAt(i)\<close>: the code unit at \<open>i\<close>, or NaN (here \<open>None\<close>) out of range.\<close>

definition charCodeAt :: "js_string \<Rightarrow> nat \<Rightarrow> code_unit option" where
  "charCodeAt s i = (if i < length s then Some (s ! i) else None)"

text \<open>The bitwise operators convert their operands with ToInt32, which sends NaN to 0.\<close>

definition toInt32 :: "code_unit option \<Rightarrow> 32 word" where
  "toInt32 v = (case v of None \<Rightarrow> 0 | Some c \<Rightarrow> ucast c)"

text \<open>Truthiness of a value of type \<open>string | null\<close>: null and the empty string are falsy.\<close>

definition truthy :: "js_string option \<Rightarrow> bool" where
  "truthy v = (case v of None \<Rightarrow> False | Some s \<Rightarrow> s \<noteq> [])"

section \<open>csrf-protection.ts: SuperAdminCSRFProtection\<close>

text \<open>
  The \<open>for\<close> loop of \<open>constantTimeEqual\<close>, with its index \<open>i\<close> and accumulator
  \<open>result\<close>:
  \<^verbatim>\<open>for (let i = 0; i < a.length; i++) { result |= a.charCodeAt(i) ^ b.charCodeAt(i); }\<close>
\<close>

function constantTimeEqual_loop ::
  "js_string \<Rightarrow> js_string \<Rightarrow> nat \<Rightarrow> 32 word \<Rightarrow> 32 word" where
  "constantTimeEqual_loop a b i result =
     (if i < length a
      then constantTimeEqual_loop a b (i + 1)
             (result OR (toInt32 (charCodeAt a i) XOR toInt32 (charCodeAt b i)))
      else result)"
  by pat_completeness auto
termination
  by (relation "measure (\<lambda>(a, b, i, r). length a - i)") auto

declare constantTimeEqual_loop.simps [simp del]

definition constantTimeEqual :: "js_string \<Rightarrow> js_string \<Rightarrow> bool" where
  "constantTimeEqual a b =
     (if length a \<noteq> length b then False else constantTimeEqual_loop a b 0 0 = 0)"

text \<open>
  The static state of the class: the field \<open>token\<close> and the two \<open>sessionStorage\<close>
  entries \<open>admin_csrf_token\<close> and \<open>admin_csrf_token_timestamp\<close>. Only \<open>setToken\<close>
  writes the timestamp, as \<open>Date.now().toString()\<close>, so the entry is kept as the
  number that \<open>parseInt\<close> reads back.
\<close>

record csrf_state =
  token :: "js_string option"
  stored_token :: "js_string option"
  stored_timestamp :: "int option"

definition TOKEN_EXPIRY :: int where
  "TOKEN_EXPIRY = 30 * 60 * 1000"

definition setToken :: "int \<Rightarrow> js_string \<Rightarrow> csrf_state \<Rightarrow> csrf_state" where
  "setToken now t s = s\<lparr>token := Some t, stored_token := Some t, stored_timestamp := Some now\<rparr>"

text \<open>
  \<open>generateSecureToken\<close> draws the token from \<open>crypto.getRandomValues\<close> (or, when that
  throws, from \<open>Date.now\<close> and \<open>Math.random\<close>); the string it builds is the parameter
  \<open>fresh\<close>.
\<close>

definition generateSecureToken :: "int \<Rightarrow> js_string \<Rightarrow> csrf_state \<Rightarrow> csrf_state" where
  "generateSecureToken now fresh s = setToken now fresh (s\<lparr>token := Some fresh\<rparr>)"

definition isTokenExpired :: "int \<Rightarrow> csrf_state \<Rightarrow> bool" where
  "isTokenExpired now s =
     (case stored_timestamp s of
        None \<Rightarrow> True
      | Some ts \<Rightarrow> now - ts > TOKEN_EXPIRY)"

definition getToken :: "int \<Rightarrow> js_string \<Rightarrow> csrf_state \<Rightarrow> js_string option \<times> csrf_state" where
  "getToken now fresh s =
     (let s' = (if \<not> truthy (token s) \<or> isTokenExpired now s
                then generateSecureToken now fresh s else s)
      in (token s', s'))"

definition validateAdminToken ::
  "int \<Rightarrow> js_string \<Rightarrow> js_string \<Rightarrow> csrf_state \<Rightarrow> bool \<times> csrf_state" where
  "validateAdminToken now fresh requestToken s =
     (case getToken now fresh s of
        (currentToken, s') \<Rightarrow>
          (if \<not> truthy currentToken \<or> requestToken = [] then (False, s')
           else (case currentToken of
                   None \<Rightarrow> (False, s')
                 | Some cur \<Rightarrow> (constantTimeEqual cur requestToken, s'))))"

section \<open>validation.ts: SuperAdminValidator.sanitizeInput\<close>

text \<open>
  The argument is declared \<open>string\<close>, but the function tests \<open>typeof input\<close> itself, so
  the model takes any JavaScript value. Numbers are kept as integers, objects are opaque.
\<close>

datatype js_value =
    JUndefined | JNull | JBoolean bool | JNumber int | JString js_string | JObject

text \<open>\<open>!input\<close>: undefined, null, false, 0 and the empty string are falsy.\<close>

definition falsy :: "js_value \<Rightarrow> bool" where
  "falsy v =
     (case v of
        JUndefined \<Rightarrow> True
      | JNull \<Rightarrow> True
      | JBoolean b \<Rightarrow> b = False
      | JNumber n \<Rightarrow> n = 0
      | JString s \<Rightarrow> s = []
      | JObject \<Rightarrow> False)"

text \<open>
  \<open>String.prototype.trim\<close> strips the WhiteSpace and LineTerminator code units of
  ECMAScript from both ends.
\<close>

definition is_whitespace :: "code_unit \<Rightarrow> bool" where
  "is_whitespace c =
     (c \<in> set [0x09, 0x0A, 0x0B, 0x0C, 0x0D, 0x20, 0xA0, 0x1680, 0x2028, 0x2029,
                0x202F, 0x205F, 0x3000, 0xFEFF]
      \<or> (0x2000 \<le> c \<and> c \<le> 0x200A))"

definition trim :: "js_string \<Rightarrow> js_string" where
  "trim s = rev (dropWhile is_whitespace (rev (dropWhile is_whitespace s)))"

text \<open>
  \<open>s.replace(re, '')\<close> for a global regular expression that never matches the empty
  string and looks at nothing before the match position: scan from the left; where the
  expression matches (\<open>m\<close> gives the length of the match at the head of the rest, 0 for
  no match) the match is dropped and the scan goes on behind it, otherwise the code unit
  is kept.
\<close>

function replace_all :: "(js_string \<Rightarrow> nat) \<Rightarrow> js_string \<Rightarrow> js_string" where
  "replace_all m [] = []"
| "replace_all m (c # cs) =
     (if m (c # cs) = 0 then c # replace_all m cs
      else replace_all m (drop (m (c # cs)) (c # cs)))"
  by pat_completeness auto
termination
  by (relation "measure (\<lambda>(m, s). length s)") auto

text \<open>
  The \<open>i\<close> flag without the \<open>u\<close> flag compares canonicalised code units: the upper-case
  mapping, except that a code unit from 128 on never maps below 128. Against the ASCII
  patterns used here only the two ASCII cases of a letter match.
\<close>

definition ascii_upper :: "code_unit \<Rightarrow> code_unit" where
  "ascii_upper c = (if 0x61 \<le> c \<and> c \<le> 0x7A then c - 0x20 else c)"

definition ci_eq :: "code_unit \<Rightarrow> code_unit \<Rightarrow> bool" where
  "ci_eq p c = (ascii_upper p = ascii_upper c)"

text \<open>A literal pattern under \<open>/i\<close>, as \<open>/javascript:/gi\<close>.\<close>

definition match_ci :: "js_string \<Rightarrow> js_string \<Rightarrow> nat" where
  "match_ci pat s =
     (if length pat \<le> length s \<and> list_all2 ci_eq pat (take (length pat) s)
      then length pat else 0)"

text \<open>The class \<open>[<>'"&]\<close>: code units 3C, 3E, 27, 22 and 26.\<close>

definition xss_chars :: "code_unit list" where
  "xss_chars = [0x3C, 0x3E, 0x27, 0x22, 0x26]"

definition match_xss_char :: "js_string \<Rightarrow> nat" where
  "match_xss_char s =
     (case s of
        [] \<Rightarrow> 0
      | c # _ \<Rightarrow> (if c \<in> set xss_chars then 1 else 0))"

text \<open>\<open>\w\<close> is \<open>[A-Za-z0-9_]\<close>.\<close>

definition is_word_char :: "code_unit \<Rightarrow> bool" where
  "is_word_char c =
     ((0x41 \<le> c \<and> c \<le> 0x5A) \<or> (0x61 \<le> c \<and> c \<le> 0x7A)
      \<or> (0x30 \<le> c \<and> c \<le> 0x39) \<or> c = 0x5F)"

text \<open>
  \<open>/on\w+=/gi\<close>: \<open>on\<close>, then the longest run of word characters, which must not be
  empty, then \<open>=\<close> (3D). A shorter run cannot match, since it is followed by a word
  character.
\<close>

definition match_event_handler :: "js_string \<Rightarrow> nat" where
  "match_event_handler s =
     (if match_ci (js ''on'') s = 0 then 0
      else (let rest = drop 2 s;
                w = takeWhile is_word_char rest
            in (case dropWhile is_word_char rest of
                  [] \<Rightarrow> 0
                | c # _ \<Rightarrow> (if w \<noteq> [] \<and> c = 0x3D then 2 + length w + 1 else 0))))"

text \<open>\<open>typeof input === 'string'\<close>.\<close>

definition typeof_string :: "js_value \<Rightarrow> bool" where
  "typeof_string v = (case v of JString s \<Rightarrow> True | _ \<Rightarrow> False)"

definition sanitizeInput :: "js_value \<Rightarrow> js_string" where
  "sanitizeInput input =
     (if falsy input \<or> \<not> typeof_string input then []
      else (case input of
              JString s \<Rightarrow>
                replace_all (match_ci (js ''expression(''))
                  (replace_all (match_ci (js ''vbscript:''))
                    (replace_all (match_ci (js ''data:''))
                      (replace_all match_event_handler
                        (replace_all (match_ci (js ''javascript:''))
                          (replace_all match_xss_char (trim s))))))
            | _ \<Rightarrow> []))"

section \<open>The browser around the session code\<close>

text \<open>
  \<open>localStorage\<close> maps keys to strings. A stored string is either plain text or the
  result of \<open>JSON.stringify\<close> on a user object, kept as that object.
\<close>

record AuthUser =
  user_id :: string
  user_email :: string
  user_role :: string
  user_name :: string

datatype stored = Text string | UserJson AuthUser

text \<open>Truthiness of what \<open>getItem\<close> returns: null and the empty string are falsy.\<close>

definition present :: "stored option \<Rightarrow> bool" where
  "present v = (case v of None \<Rightarrow> False | Some (Text t) \<Rightarrow> t \<noteq> [] | Some (UserJson u) \<Rightarrow> True)"

text \<open>
  The part of the browser that \<open>AuthService\<close> touches: \<open>localStorage\<close> and the HTTP
  requests that have been sent and not yet answered (request number and endpoint).
\<close>

record browser =
  localStorage :: "string \<rightharpoonup> stored"
  requests :: "(nat \<times> string) list"
  nextRequest :: nat

definition getItem :: "string \<Rightarrow> 'a browser_scheme \<Rightarrow> stored option" where
  "getItem k w = localStorage w k"

definition setItem :: "string \<Rightarrow> stored \<Rightarrow> 'a browser_scheme \<Rightarrow> 'a browser_scheme" where
  "setItem k v w = w\<lparr>localStorage := (localStorage w)(k \<mapsto> v)\<rparr>"

definition removeItem :: "string \<Rightarrow> 'a browser_scheme \<Rightarrow> 'a browser_scheme" where
  "removeItem k w = w\<lparr>localStorage := (localStorage w)(k := None)\<rparr>"

section \<open>session-manager.ts: AdminSessionManager\<close>

record AdminSessionConfig =
  timeoutMinutes :: int
  warningMinutes :: int
  checkIntervalMs :: int
  activityEvents :: "string list"

text \<open>
  A timer handle is a positive number in the browser (the file declares it as the object
  type \<open>NodeJS.Timeout\<close>), so the test \<open>if (this.state.timeoutId)\<close> holds exactly when
  the field is not null.
\<close>

type_synonym handle = nat

record AdminSessionState =
  lastActivity :: int
  isActive :: bool
  warningShown :: bool
  timeoutId :: "handle option"
  warningTimeoutId :: "handle option"

text \<open>
  The three closures the manager hands to \<open>setTimeout\<close> and \<open>setInterval\<close>. The browser
  keeps one list of active timers for both kinds, with handles from one counter;
  \<open>clearTimeout\<close> removes an entry of either kind. A timeout carries its delay, an
  interval its period.
\<close>

datatype timer =
    WarningTimeout int
  | SessionTimeout int
  | PeriodicCheck int

text \<open>
  A subscribed listener is a function: its identity, and whether a call to it throws.
\<close>

datatype callback = Callback (cb_id: nat) (cb_throws: bool)

text \<open>
  The manager (\<open>config\<close>, \<open>state\<close>, \<open>listeners\<close>) and what it acts on: the active
  timers, the capture listeners on \<open>document\<close> (event type and function identity), the
  number of \<open>alert\<close> boxes shown, the values assigned to \<open>window.location.href\<close>, the
  calls the subscribed listeners received, and the number of \<open>AuthService.verifyToken\<close>
  calls started by the periodic check.
\<close>

record world = browser +
  config :: AdminSessionConfig
  state :: AdminSessionState
  listeners :: "callback list"
  timers :: "(handle \<times> timer) list"
  nextHandle :: handle
  docListeners :: "(string \<times> nat) list"
  nextFunction :: nat
  alerts :: nat
  location :: "string list"
  delivered :: "nat list"
  verifications :: nat

definition setTimeout :: "timer \<Rightarrow> world \<Rightarrow> handle \<times> world" where
  "setTimeout t w =
     (nextHandle w, w\<lparr>timers := timers w @ [(nextHandle w, t)], nextHandle := nextHandle w + 1\<rparr>)"

definition setInterval :: "timer \<Rightarrow> world \<Rightarrow> handle \<times> world" where
  "setInterval t w =
     (nextHandle w, w\<lparr>timers := timers w @ [(nextHandle w, t)], nextHandle := nextHandle w + 1\<rparr>)"

definition remove_timer :: "handle \<Rightarrow> world \<Rightarrow> world" where
  "remove_timer h w = w\<lparr>timers := filter (\<lambda>e. fst e \<noteq> h) (timers w)\<rparr>"

definition clearTimeout :: "handle \<Rightarrow> world \<Rightarrow> world" where
  "clearTimeout h w = remove_timer h w"

text \<open>
  \<open>this.handleActivity.bind(this)\<close> makes a new function object at every evaluation.
  \<open>addEventListener\<close> ignores a listener that is already registered for the type;
  \<open>removeEventListener\<close> removes the entry with that very function, if there is one.
\<close>

definition bind_handleActivity :: "world \<Rightarrow> nat \<times> world" where
  "bind_handleActivity w = (nextFunction w, w\<lparr>nextFunction := nextFunction w + 1\<rparr>)"

definition addEventListener :: "string \<Rightarrow> nat \<Rightarrow> world \<Rightarrow> world" where
  "addEventListener ev f w =
     (if (ev, f) \<in> set (docListeners w) then w
      else w\<lparr>docListeners := docListeners w @ [(ev, f)]\<rparr>)"

definition removeEventListener :: "string \<Rightarrow> nat \<Rightarrow> world \<Rightarrow> world" where
  "removeEventListener ev f w = w\<lparr>docListeners := filter (\<lambda>e. e \<noteq> (ev, f)) (docListeners w)\<rparr>"

text \<open>The constructor, called once by \<open>getInstance\<close>; \<open>now\<close> is \<open>Date.now()\<close>.\<close>

definition default_config :: AdminSessionConfig where
  "default_config =
     \<lparr>timeoutMinutes = 480, warningMinutes = 30, checkIntervalMs = 300000,
      activityEvents = [''mousedown'', ''mousemove'', ''keypress'', ''scroll'',
                        ''touchstart'', ''click'', ''focus'', ''blur'']\<rparr>"

definition initial :: "int \<Rightarrow> (string \<rightharpoonup> stored) \<Rightarrow> world" where
  "initial now store =
     \<lparr>localStorage = store, requests = [], nextRequest = 0,
      config = default_config,
      state = \<lparr>lastActivity = now, isActive = False, warningShown = False,
               timeoutId = None, warningTimeoutId = None\<rparr>,
      listeners = [], timers = [], nextHandle = 1, docListeners = [], nextFunction = 0,
      alerts = 0, location = [], delivered = [], verifications = 0\<rparr>"

definition clearTimeouts :: "world \<Rightarrow> world" where
  "clearTimeouts w =
     (let w1 = (case timeoutId (state w) of
                  None \<Rightarrow> w
                | Some h \<Rightarrow> (clearTimeout h w)\<lparr>state := (state w)\<lparr>timeoutId := None\<rparr>\<rparr>)
      in (case warningTimeoutId (state w1) of
            None \<Rightarrow> w1
          | Some h \<Rightarrow> (clearTimeout h w1)\<lparr>state := (state w1)\<lparr>warningTimeoutId := None\<rparr>\<rparr>))"

definition scheduleTimeouts :: "world \<Rightarrow> world" where
  "scheduleTimeouts w =
     (let w0 = clearTimeouts w;
          timeoutMs = timeoutMinutes (config w0) * 60 * 1000;
          warningMs = (timeoutMinutes (config w0) - warningMinutes (config w0)) * 60 * 1000
      in (case setTimeout (WarningTimeout warningMs) w0 of
            (h1, w1) \<Rightarrow>
              (case setTimeout (SessionTimeout timeoutMs)
                      (w1\<lparr>state := (state w1)\<lparr>warningTimeoutId := Some h1\<rparr>\<rparr>) of
                 (h2, w2) \<Rightarrow> w2\<lparr>state := (state w2)\<lparr>timeoutId := Some h2\<rparr>\<rparr>)))"

text \<open>
  Calling a listener: the call is received, then the function returns (\<open>Inr\<close>) or throws
  (\<open>Inl\<close>). \<open>notifyListeners\<close> wraps each call in \<open>try\<close>/\<open>catch\<close> with an empty handler.
\<close>

definition invoke :: "callback \<Rightarrow> world \<Rightarrow> world + world" where
  "invoke cb w =
     (let w' = w\<lparr>delivered := delivered w @ [cb_id cb]\<rparr>
      in if cb_throws cb then Inl w' else Inr w')"

definition notifyListeners :: "world \<Rightarrow> world" where
  "notifyListeners w =
     foldl (\<lambda>w cb. case invoke cb w of Inr w' \<Rightarrow> w' | Inl w' \<Rightarrow> w') w (listeners w)"

text \<open>\<open>startPeriodicCheck\<close> drops the handle that \<open>setInterval\<close> returns.\<close>

definition startPeriodicCheck :: "world \<Rightarrow> world" where
  "startPeriodicCheck w = snd (setInterval (PeriodicCheck (checkIntervalMs (config w))) w)"

text \<open>
  The two \<open>activityEvents.forEach\<close> loops of \<open>start\<close> and \<open>stop\<close>. Each round evaluates
  \<open>this.handleActivity.bind(this)\<close> anew.
\<close>

definition attach_listeners :: "world \<Rightarrow> world" where
  "attach_listeners w =
     foldl (\<lambda>w ev. case bind_handleActivity w of (f, w') \<Rightarrow> addEventListener ev f w')
       w (activityEvents (config w))"

definition detach_listeners :: "world \<Rightarrow> world" where
  "detach_listeners w =
     foldl (\<lambda>w ev. case bind_handleActivity w of (f, w') \<Rightarrow> removeEventListener ev f w')
       w (activityEvents (config w))"

definition start :: "int \<Rightarrow> world \<Rightarrow> world" where
  "start now w =
     (if isActive (state w) then w
      else (let w1 = w\<lparr>state := (state w)\<lparr>isActive := True, lastActivity := now\<rparr>\<rparr>;
                w2 = attach_listeners w1
            in startPeriodicCheck (scheduleTimeouts w2)))"

definition stop :: "world \<Rightarrow> world" where
  "stop w =
     (if \<not> isActive (state w) then w
      else (let w1 = w\<lparr>state := (state w)\<lparr>isActive := False\<rparr>\<rparr>;
                w2 = detach_listeners w1
            in clearTimeouts w2))"

definition handleActivity :: "int \<Rightarrow> world \<Rightarrow> world" where
  "handleActivity now w =
     (let timeSinceLastActivity = now - lastActivity (state w)
      in if timeSinceLastActivity < 1000 then w
         else notifyListeners
                (scheduleTimeouts
                  (w\<lparr>state := (state w)\<lparr>lastActivity := now, warningShown := False\<rparr>\<rparr>)))"

definition extendSession :: "int \<Rightarrow> world \<Rightarrow> world" where
  "extendSession now w =
     scheduleTimeouts (w\<lparr>state := (state w)\<lparr>lastActivity := now, warningShown := False\<rparr>\<rparr>)"

definition clearAdminAuthData :: "world \<Rightarrow> world" where
  "clearAdminAuthData w = removeItem ''adminUser'' (removeItem ''adminToken'' w)"

definition handleSessionTimeout :: "world \<Rightarrow> world" where
  "handleSessionTimeout w =
     (let w1 = clearAdminAuthData (stop w);
          w2 = w1\<lparr>alerts := alerts w1 + 1\<rparr>
      in w2\<lparr>location := location w2 @ [''/login'']\<rparr>)"

text \<open>
  \<open>confirm\<close> blocks until the user answers; \<open>continueSession\<close> is the answer and \<open>now\<close>
  the time \<open>extendSession\<close> reads afterwards.
\<close>

definition showTimeoutWarning :: "bool \<Rightarrow> int \<Rightarrow> world \<Rightarrow> world" where
  "showTimeoutWarning continueSession now w =
     (if warningShown (state w) then w
      else (let w1 = w\<lparr>state := (state w)\<lparr>warningShown := True\<rparr>\<rparr>
            in if continueSession then extendSession now w1 else handleSessionTimeout w1))"

text \<open>
  \<open>validateSessionWithBackend\<close> is asynchronous: without a stored token it returns, with
  one it starts \<open>AuthService.verifyToken()\<close>, ignores the result and swallows any error.
\<close>

definition validateSessionWithBackend :: "world \<Rightarrow> world" where
  "validateSessionWithBackend w =
     (if \<not> present (getItem ''adminToken'' w) then w
      else w\<lparr>verifications := verifications w + 1\<rparr>)"

text \<open>JavaScript's \<open>%\<close> takes the sign of the dividend.\<close>

definition js_rem :: "int \<Rightarrow> int \<Rightarrow> int" where
  "js_rem a b = sgn a * (\<bar>a\<bar> mod \<bar>b\<bar>)"

text \<open>The body of the function given to \<open>setInterval\<close> in \<open>startPeriodicCheck\<close>.\<close>

definition periodicCheck :: "int \<Rightarrow> world \<Rightarrow> world" where
  "periodicCheck now w =
     (if \<not> isActive (state w) then w
      else (let timeSinceActivity = now - lastActivity (state w);
                timeoutMs = timeoutMinutes (config w) * 60 * 1000
            in if timeSinceActivity \<ge> timeoutMs then handleSessionTimeout w
               else if js_rem timeSinceActivity (10 * 60 * 1000) < checkIntervalMs (config w)
               then validateSessionWithBackend w
               else w))"

text \<open>\<open>listeners\<close> is a \<open>Set\<close>: insertion order, no function twice.\<close>

definition addListener :: "callback \<Rightarrow> world \<Rightarrow> world" where
  "addListener cb w =
     (if cb_id cb \<in> set (map cb_id (listeners w)) then w
      else w\<lparr>listeners := listeners w @ [cb]\<rparr>)"

definition removeListener :: "callback \<Rightarrow> world \<Rightarrow> world" where
  "removeListener cb w = w\<lparr>listeners := filter (\<lambda>l. cb_id l \<noteq> cb_id cb) (listeners w)\<rparr>"

record SessionInfo =
  info_isActive :: bool
  info_lastActivity :: int
  timeRemaining :: int
  timeRemainingMinutes :: int
  info_warningShown :: bool

definition getSessionInfo :: "int \<Rightarrow> world \<Rightarrow> SessionInfo \<times> world" where
  "getSessionInfo now w =
     (let timeSinceActivity = now - lastActivity (state w);
          timeoutMs = timeoutMinutes (config w) * 60 * 1000;
          remainingMs = max 0 (timeoutMs - timeSinceActivity)
      in (\<lparr>info_isActive = isActive (state w),
           info_lastActivity = lastActivity (state w),
           timeRemaining = remainingMs,
           timeRemainingMinutes = remainingMs div 60000,
           info_warningShown = warningShown (state w)\<rparr>, w))"

text \<open>\<open>Partial<AdminSessionConfig>\<close>: the fields that are given override.\<close>

record PartialConfig =
  new_timeoutMinutes :: "int option"
  new_warningMinutes :: "int option"
  new_checkIntervalMs :: "int option"
  new_activityEvents :: "string list option"

definition merge_config :: "AdminSessionConfig \<Rightarrow> PartialConfig \<Rightarrow> AdminSessionConfig" where
  "merge_config c p =
     \<lparr>timeoutMinutes = (case new_timeoutMinutes p of None \<Rightarrow> timeoutMinutes c | Some v \<Rightarrow> v),
      warningMinutes = (case new_warningMinutes p of None \<Rightarrow> warningMinutes c | Some v \<Rightarrow> v),
      checkIntervalMs = (case new_checkIntervalMs p of None \<Rightarrow> checkIntervalMs c | Some v \<Rightarrow> v),
      activityEvents = (case new_activityEvents p of None \<Rightarrow> activityEvents c | Some v \<Rightarrow> v)\<rparr>"

definition updateConfig :: "PartialConfig \<Rightarrow> world \<Rightarrow> world" where
  "updateConfig newConfig w =
     (let w1 = w\<lparr>config := merge_config (config w) newConfig\<rparr>
      in if isActive (state w1) then scheduleTimeouts w1 else w1)"

text \<open>
  The browser runs an active timer: a timeout leaves the list of active timers and its
  closure runs; an interval stays and its closure runs. A handle that is not active
  (never issued, already run, or cleared) runs nothing.
\<close>

definition fire :: "handle \<Rightarrow> bool \<Rightarrow> int \<Rightarrow> world \<Rightarrow> world" where
  "fire h continueSession now w =
     (case map_of (timers w) h of
        None \<Rightarrow> w
      | Some (WarningTimeout ms) \<Rightarrow> showTimeoutWarning continueSession now (remove_timer h w)
      | Some (SessionTimeout ms) \<Rightarrow> handleSessionTimeout (remove_timer h w)
      | Some (PeriodicCheck ms) \<Rightarrow> periodicCheck now w)"

text \<open>
  An event of type \<open>ev\<close> reaches \<open>document\<close>: every listener registered for the type
  runs, and each of them is a bound \<open>handleActivity\<close>.
\<close>

definition dispatchEvent :: "string \<Rightarrow> int \<Rightarrow> world \<Rightarrow> world" where
  "dispatchEvent ev now w =
     foldl (\<lambda>w f. handleActivity now w) w (filter (\<lambda>e. fst e = ev) (docListeners w))"

section \<open>api-client.ts and auth.ts: the refresh call\<close>

text \<open>
  What \<open>fetch\<close> can come back with: a rejection (network failure), the abort of the
  15 second timeout, or a response with its status and body. The body is JSON that
  parses to an object, JSON that does not parse, or (by its content type) not JSON.
\<close>

record ErrorObject =
  error_message :: "string option"
  error_code :: "string option"
  error_status :: "int option"

record ResponseData =
  data_error :: "ErrorObject option"
  data_message :: "string option"
  data_code :: "string option"
  accessToken :: "string option"
  user :: "AuthUser option"

datatype body = JsonBody ResponseData | BadJson | NonJson string

datatype fetch_outcome = FetchRejected | FetchAborted | FetchResponse int body

text \<open>
  A thrown value as the \<open>catch (error: any)\<close> blocks read it: \<open>error.message\<close>,
  \<open>error.code\<close>, \<open>error.status\<close> and \<open>error.response?.status\<close>. The class
  \<open>SuperAdminApiError\<close> has the fields \<open>message\<close>, \<open>code\<close>, \<open>status\<close>, \<open>details\<close> and
  \<open>name\<close>; it has no \<open>response\<close>, so \<open>error.response?.status\<close> is undefined on it.
\<close>

record thrown =
  thrown_message :: "string option"
  thrown_code :: "string option"
  thrown_status :: "int option"
  thrown_response_status :: "int option"

definition SuperAdminApiError :: "string option \<Rightarrow> string option \<Rightarrow> int option \<Rightarrow> thrown" where
  "SuperAdminApiError message code status =
     \<lparr>thrown_message = message, thrown_code = code, thrown_status = status,
      thrown_response_status = None\<rparr>"

definition ok :: "int \<Rightarrow> bool" where
  "ok status = (200 \<le> status \<and> status \<le> 299)"

definition or_else :: "string option \<Rightarrow> string \<Rightarrow> string option" where
  "or_else v d = (case v of None \<Rightarrow> Some d | Some s \<Rightarrow> (if s = [] then Some d else Some s))"

definition handleResponse :: "int \<Rightarrow> body \<Rightarrow> thrown + ResponseData" where
  "handleResponse status b =
     (case b of
        BadJson \<Rightarrow>
          Inl (SuperAdminApiError (Some ''Failed to parse response'') (Some ''PARSE_ERROR'')
                 (Some status))
      | _ \<Rightarrow>
          (let data = (case b of
                         JsonBody d \<Rightarrow> d
                       | _ \<Rightarrow> \<lparr>data_error =
                                  Some \<lparr>error_message = (case b of NonJson t \<Rightarrow> Some t | _ \<Rightarrow> None),
                                        error_code = Some ''NON_JSON_RESPONSE'',
                                        error_status = Some status\<rparr>,
                                data_message = None, data_code = None,
                                accessToken = None, user = None\<rparr>)
           in if \<not> ok status
              then (let error = (case data_error data of
                                   Some e \<Rightarrow> e
                                 | None \<Rightarrow>
                                     \<lparr>error_message = or_else (data_message data) ''Request failed'',
                                      error_code = or_else (data_code data) ''REQUEST_FAILED'',
                                      error_status = Some status\<rparr>)
                    in Inl (SuperAdminApiError (error_message error) (error_code error)
                              (error_status error)))
              else Inr data))"

text \<open>
  \<open>request\<close>: an error of \<open>handleResponse\<close> is thrown on, an abort becomes a timeout
  error with status 408, and anything else a network error with status 0.
\<close>

definition request :: "fetch_outcome \<Rightarrow> thrown + ResponseData" where
  "request outcome =
     (case outcome of
        FetchResponse status b \<Rightarrow> handleResponse status b
      | FetchAborted \<Rightarrow>
          Inl (SuperAdminApiError (Some ''Request timeout'') (Some ''TIMEOUT_ERROR'') (Some 408))
      | FetchRejected \<Rightarrow>
          Inl (SuperAdminApiError (Some ''Network request failed'') (Some ''NETWORK_ERROR'')
                 (Some 0)))"

text \<open>
  \<open>adminApiClient.post\<close> sends the request, which is then in flight; \<open>settle\<close> is the
  arrival of its outcome.
\<close>

definition post :: "string \<Rightarrow> 'a browser_scheme \<Rightarrow> nat \<times> 'a browser_scheme" where
  "post endpoint w =
     (nextRequest w,
      w\<lparr>requests := requests w @ [(nextRequest w, endpoint)], nextRequest := nextRequest w + 1\<rparr>)"

definition settle :: "nat \<Rightarrow> 'a browser_scheme \<Rightarrow> 'a browser_scheme" where
  "settle rid w = w\<lparr>requests := filter (\<lambda>r. fst r \<noteq> rid) (requests w)\<rparr>"

definition tokenKey :: string where "tokenKey = ''adminToken''"
definition refreshTokenKey :: string where "refreshTokenKey = ''adminRefreshToken''"
definition userKey :: string where "userKey = ''adminUser''"

text \<open>\<open>AuthService.logout\<close>; the answer to its request is ignored.\<close>

definition logout :: "'a browser_scheme \<Rightarrow> 'a browser_scheme" where
  "logout w =
     snd (post ''/auth/logout''
            (removeItem userKey (removeItem refreshTokenKey (removeItem tokenKey w))))"

text \<open>The three \<open>setItem\<close> calls of a successful \<open>AuthService.login\<close>.\<close>

definition login_store :: "string \<Rightarrow> string \<Rightarrow> AuthUser \<Rightarrow> 'a browser_scheme \<Rightarrow> 'a browser_scheme" where
  "login_store accessTok refreshTok u w =
     setItem userKey (UserJson u)
       (setItem refreshTokenKey (Text refreshTok) (setItem tokenKey (Text accessTok) w))"

text \<open>
  \<open>AuthService.refreshAccessToken\<close> is an \<open>async\<close> function with one \<open>await\<close>. Up to the
  \<open>await\<close> it either resolves at once or leaves a request in flight;
  \<open>refreshAccessToken_resume\<close> is the rest of the body, run when the request comes back.
\<close>

datatype 'a async = Resolved 'a | Awaiting nat

definition refreshAccessToken :: "'a browser_scheme \<Rightarrow> bool async \<times> 'a browser_scheme" where
  "refreshAccessToken w =
     (if \<not> present (getItem refreshTokenKey w) then (Resolved False, w)
      else (case post ''/auth/refresh'' w of (rid, w') \<Rightarrow> (Awaiting rid, w')))"

definition refreshAccessToken_resume ::
  "thrown + ResponseData \<Rightarrow> 'a browser_scheme \<Rightarrow> bool \<times> 'a browser_scheme" where
  "refreshAccessToken_resume r w =
     (case r of
        Inr response \<Rightarrow>
          (case (accessToken response, user response) of
             (Some tok, Some u) \<Rightarrow>
               (if tok = [] then (False, w)
                else if user_role u \<noteq> ''superadmin'' then (False, logout w)
                else (True, setItem userKey (UserJson u) (setItem tokenKey (Text tok) w)))
           | _ \<Rightarrow> (False, w))
      | Inl error \<Rightarrow>
          (if thrown_response_status error = Some 401 \<or> thrown_response_status error = Some 403
           then (False, logout w)
           else (False, w)))"

text \<open>The outcome of request \<open>rid\<close> arrives and the caller waiting for it goes on.\<close>

definition refresh_completes ::
  "nat \<Rightarrow> fetch_outcome \<Rightarrow> 'a browser_scheme \<Rightarrow> bool \<times> 'a browser_scheme" where
  "refresh_completes rid outcome w = refreshAccessToken_resume (request outcome) (settle rid w)"

text \<open>\<open>n\<close> calls of \<open>refreshAccessToken\<close> in a row, none of them answered yet.\<close>

fun refresh_calls :: "nat \<Rightarrow> 'a browser_scheme \<Rightarrow> bool async list \<times> 'a browser_scheme" where
  "refresh_calls 0 w = ([], w)"
| "refresh_calls (Suc n) w =
     (case refreshAccessToken w of
        (r, w') \<Rightarrow> (case refresh_calls n w' of (rs, w'') \<Rightarrow> (r # rs, w'')))"

definition in_flight :: "string \<Rightarrow> 'a browser_scheme \<Rightarrow> nat" where
  "in_flight endpoint w = length (filter (\<lambda>r. snd r = endpoint) (requests w))"

section \<open>Runs of the session manager\<close>

text \<open>
  What can happen to the manager between two states: a call of one of its public
  methods, a DOM event, the browser running a timer, and the storage writes of
  \<open>AuthService.login\<close> and \<open>AuthService.logout\<close>.
\<close>

datatype event =
    Start int
  | Stop
  | DomEvent string int
  | TimerFires handle bool int
  | ExtendSession int
  | UpdateConfig PartialConfig
  | AddListener callback
  | RemoveListener callback
  | GetSessionInfo int
  | LoginStored string string AuthUser
  | Logout

fun step :: "world \<Rightarrow> event \<Rightarrow> world" where
  "step w (Start now) = start now w"
| "step w Stop = stop w"
| "step w (DomEvent ev now) = dispatchEvent ev now w"
| "step w (TimerFires h continueSession now) = fire h continueSession now w"
| "step w (ExtendSession now) = extendSession now w"
| "step w (UpdateConfig p) = updateConfig p w"
| "step w (AddListener cb) = addListener cb w"
| "step w (RemoveListener cb) = removeListener cb w"
| "step w (GetSessionInfo now) = snd (getSessionInfo now w)"
| "step w (LoginStored a r u) = login_store a r u w"
| "step w Logout = logout w"

definition run :: "event list \<Rightarrow> world \<Rightarrow> world" where
  "run evs w = foldl step w evs"

section \<open>Notions used to state the properties\<close>

text \<open>The handles the manager holds in \<open>state.timeoutId\<close> and \<open>state.warningTimeoutId\<close>.\<close>

definition owned :: "AdminSessionState \<Rightarrow> handle \<Rightarrow> bool" where
  "owned s h = (timeoutId s = Some h \<or> warningTimeoutId s = Some h)"

definition is_periodic :: "timer \<Rightarrow> bool" where
  "is_periodic t = (case t of PeriodicCheck ms \<Rightarrow> True | _ \<Rightarrow> False)"

text \<open>
  How often \<open>lastActivity\<close> changes while \<open>handleActivity\<close> runs at the times \<open>ts\<close>, one
  after the other.
\<close>

fun updates :: "int list \<Rightarrow> world \<Rightarrow> nat" where
  "updates [] w = 0"
| "updates (t # ts) w =
     (if lastActivity (state (handleActivity t w)) \<noteq> lastActivity (state w) then 1 else 0)
     + updates ts (handleActivity t w)"

text \<open>
  The timers of a world are in order when every handle in use is below the counter, the
  intervals are not among the handles the manager holds, and every timeout is.
\<close>

definition handle_below :: "handle \<Rightarrow> handle option \<Rightarrow> bool" where
  "handle_below n ho = (case ho of None \<Rightarrow> True | Some h \<Rightarrow> h < n)"

definition timers_inv :: "world \<Rightarrow> bool" where
  "timers_inv w =
     (list_all (\<lambda>e. fst e < nextHandle w \<and> is_periodic (snd e) = (\<not> owned (state w) (fst e)))
        (timers w)
      \<and> handle_below (nextHandle w) (timeoutId (state w))
      \<and> handle_below (nextHandle w) (warningTimeoutId (state w)))"

text \<open>An inactive manager holds no timeout handle.\<close>

definition idle_inv :: "world \<Rightarrow> bool" where
  "idle_inv w =
     (isActive (state w) \<or> (timeoutId (state w) = None \<and> warningTimeoutId (state w) = None))"

text \<open>
  A run in which activity events and \<open>extendSession()\<close> calls arrive only while the
  manager is active.
\<close>

fun admissible :: "world \<Rightarrow> event list \<Rightarrow> bool" where
  "admissible w [] = True"
| "admissible w (e # es) =
     ((case e of
         DomEvent ev now \<Rightarrow> isActive (state w)
       | ExtendSession now \<Rightarrow> isActive (state w)
       | _ \<Rightarrow> True)
      \<and> admissible (step w e) es)"

text \<open>Concrete inputs: a stored session, and a manager started at time 0.\<close>

definition admin_user :: AuthUser where
  "admin_user = \<lparr>user_id = ''1'', user_email = ''root@veeq.ai'', user_role = ''superadmin'',
                  user_name = ''Root''\<rparr>"

definition stored_session :: "string \<rightharpoonup> stored" where
  "stored_session =
     [''adminToken'' \<mapsto> Text ''access'', ''adminRefreshToken'' \<mapsto> Text ''refresh'',
      ''adminUser'' \<mapsto> UserJson admin_user]"

definition a_browser :: browser where
  "a_browser = \<lparr>localStorage = stored_session, requests = [], nextRequest = 0\<rparr>"

definition intruder_reply :: ResponseData where
  "intruder_reply =
     \<lparr>data_error = None, data_message = None, data_code = None,
      accessToken = Some ''fresh'', user = Some (admin_user\<lparr>user_role := ''editor''\<rparr>)\<rparr>"

definition active_world :: world where
  "active_world = start 0 (initial 0 stored_session)"

section \<open>Properties of the CSRF token comparison\<close>

lemma word32_or_eq_0: "(x :: 32 word) OR y = 0 \<longleftrightarrow> x = 0 \<and> y = 0"
  by (simp add: or_eq_0_iff)

lemma word32_xor_eq_0: "(x :: 32 word) XOR y = 0 \<longleftrightarrow> x = y"
  by (metis bit.xor_left_self word_bw_same(3))

lemma ucast_code_unit_inj:
  "(ucast (x :: code_unit) :: 32 word) = ucast (y :: code_unit) \<longleftrightarrow> x = y"
proof
  assume h: "(ucast x :: 32 word) = ucast y"
  have "\<And>z :: code_unit. (ucast (ucast z :: 32 word) :: code_unit) = z"
    by (simp add: ucast_up_ucast is_up)
  then show "x = y" using h by metis
qed simp

lemma constantTimeEqual_loop_zero:
  "length a = length b \<Longrightarrow> i \<le> length a \<Longrightarrow>
   (constantTimeEqual_loop a b i r = 0) = (r = 0 \<and> drop i a = drop i b)"
proof (induction a b i r rule: constantTimeEqual_loop.induct)
  case (1 a b i r)
  show ?case
  proof (cases "i < length a")
    case True
    let ?r = "r OR (toInt32 (charCodeAt a i) XOR toInt32 (charCodeAt b i))"
    have step: "constantTimeEqual_loop a b i r = constantTimeEqual_loop a b (i + 1) ?r"
      using True by (simp add: constantTimeEqual_loop.simps [of a b i r])
    have ih: "(constantTimeEqual_loop a b (i + 1) ?r = 0)
              = (?r = 0 \<and> drop (i + 1) a = drop (i + 1) b)"
      using "1.IH" [OF True] "1.prems" True by simp
    have acc: "(?r = 0) = (r = 0 \<and> a ! i = b ! i)"
      using True "1.prems"
      by (simp add: word32_or_eq_0 word32_xor_eq_0 charCodeAt_def toInt32_def
                    ucast_code_unit_inj)
    have da: "drop i a = a ! i # drop (i + 1) a"
      using True by (simp add: Cons_nth_drop_Suc)
    have db: "drop i b = b ! i # drop (i + 1) b"
      using True "1.prems" by (simp add: Cons_nth_drop_Suc)
    show ?thesis
      unfolding step ih acc da db by auto
  next
    case False
    have stop: "constantTimeEqual_loop a b i r = r"
      using False by (simp add: constantTimeEqual_loop.simps [of a b i r])
    show ?thesis
      unfolding stop using False "1.prems" by simp
  qed
qed

lemma constantTimeEqual_iff: "constantTimeEqual a b \<longleftrightarrow> a = b"
proof (cases "length a = length b")
  case True
  then show ?thesis
    using constantTimeEqual_loop_zero [of a b 0 0]
    by (simp add: constantTimeEqual_def)
next
  case False
  then show ?thesis
    by (auto simp: constantTimeEqual_def)
qed

text \<open>
  C9. \<open>constantTimeEqual(a, b)\<close> is true exactly when the two strings are equal, and
  \<open>validateAdminToken(requestToken)\<close> is true exactly when the current token (the one
  \<open>getToken()\<close> hands out) is present, that is non-empty, and \<open>requestToken\<close> is that
  very string.
\<close>

theorem C9_constantTimeEqual_validateAdminToken:
  "(constantTimeEqual a b \<longleftrightarrow> a = b) \<and>
   (fst (validateAdminToken now fresh requestToken s)
      \<longleftrightarrow> (fst (getToken now fresh s) = Some requestToken \<and> requestToken \<noteq> []))"
proof
  show "constantTimeEqual a b \<longleftrightarrow> a = b"
    by (rule constantTimeEqual_iff)
next
  obtain cur s' where g: "getToken now fresh s = (cur, s')"
    by (cases "getToken now fresh s")
  show "fst (validateAdminToken now fresh requestToken s)
          \<longleftrightarrow> (fst (getToken now fresh s) = Some requestToken \<and> requestToken \<noteq> [])"
    unfolding validateAdminToken_def g
    by (cases cur) (auto simp: truthy_def constantTimeEqual_iff)
qed

section \<open>Properties of sanitizeInput\<close>

lemma set_replace_all: "set (replace_all m s) \<subseteq> set s"
proof (induction m s rule: replace_all.induct)
  case (1 m)
  then show ?case by simp
next
  case (2 m c cs)
  show ?case
  proof (cases "m (c # cs) = 0")
    case True
    then show ?thesis using "2.IH"(1) by auto
  next
    case False
    have "set (drop (m (c # cs)) (c # cs)) \<subseteq> set (c # cs)"
      by (rule set_drop_subset)
    then show ?thesis using False "2.IH"(2) by auto
  qed
qed

lemma set_trim: "set (trim s) \<subseteq> set s"
proof -
  have "set (trim s) \<subseteq> set (rev (dropWhile is_whitespace s))"
    unfolding trim_def set_rev by (auto dest: set_dropWhileD)
  also have "\<dots> \<subseteq> set s"
    by (auto dest: set_dropWhileD)
  finally show ?thesis .
qed

lemma replace_all_xss_char: "set (replace_all match_xss_char s) \<inter> set xss_chars = {}"
proof (induction s)
  case Nil
  then show ?case by simp
next
  case (Cons c cs)
  show ?case
  proof (cases "c \<in> set xss_chars")
    case True
    then have "replace_all match_xss_char (c # cs) = replace_all match_xss_char cs"
      by (simp add: match_xss_char_def)
    then show ?thesis using Cons.IH by simp
  next
    case False
    then have "replace_all match_xss_char (c # cs) = c # replace_all match_xss_char cs"
      by (simp add: match_xss_char_def)
    then show ?thesis using Cons.IH False by simp
  qed
qed

lemma set_replace_all_within: "set s \<subseteq> A \<Longrightarrow> set (replace_all m s) \<subseteq> A"
  using set_replace_all [of m s] by blast

lemma sanitizeInput_string_subset:
  "set (sanitizeInput (JString s)) \<subseteq> set (replace_all match_xss_char (trim s))"
proof (cases "s = []")
  case True
  then show ?thesis by (simp add: sanitizeInput_def falsy_def)
next
  case False
  then have "sanitizeInput (JString s) =
      replace_all (match_ci (js ''expression(''))
        (replace_all (match_ci (js ''vbscript:''))
          (replace_all (match_ci (js ''data:''))
            (replace_all match_event_handler
              (replace_all (match_ci (js ''javascript:''))
                (replace_all match_xss_char (trim s))))))"
    by (simp add: sanitizeInput_def falsy_def typeof_string_def)
  then show ?thesis
    by (simp only: set_replace_all_within subset_refl)
qed

text \<open>
  C10. Whatever the input, the string \<open>sanitizeInput\<close> returns holds none of the code
  units of \<open><\<close>, \<open>>\<close>, \<open>'\<close>, \<open>"\<close> and \<open>&\<close> (3C, 3E, 27, 22, 26), and it is the empty
  string when the input is the empty string or is not a string.
\<close>

theorem C10_sanitizeInput_strips_xss_chars:
  "set (sanitizeInput input) \<inter> {0x3C, 0x3E, 0x27, 0x22, 0x26} = {} \<and>
   sanitizeInput (JString []) = [] \<and>
   ((\<forall>s. input \<noteq> JString s) \<longrightarrow> sanitizeInput input = [])"
proof (intro conjI impI)
  show "set (sanitizeInput input) \<inter> {0x3C, 0x3E, 0x27, 0x22, 0x26} = {}"
  proof (cases input)
    case (JString s)
    have "set (sanitizeInput (JString s)) \<inter> set xss_chars = {}"
      using sanitizeInput_string_subset [of s] replace_all_xss_char [of "trim s"] by blast
    then show ?thesis by (simp add: JString xss_chars_def)
  qed (simp_all add: sanitizeInput_def typeof_string_def)
next
  show "sanitizeInput (JString []) = []"
    by (simp add: sanitizeInput_def falsy_def)
next
  assume "\<forall>s. input \<noteq> JString s"
  then show "sanitizeInput input = []"
    by (cases input) (simp_all add: sanitizeInput_def typeof_string_def)
qed

theorem C10_sanitizeInput_witness:
  "sanitizeInput (JNumber 7) = [] \<and>
   sanitizeInput (JString (js '' a<b>&c '')) = js ''abc''"
proof -
  have "sanitizeInput (JNumber 7) = []"
    using C10_sanitizeInput_strips_xss_chars [of "JNumber 7"] by simp
  moreover have "sanitizeInput (JString (js '' a<b>&c '')) = js ''abc''"
    by code_simp
  ultimately show ?thesis by simp
qed

text \<open>The comparison at concrete tokens: equal strings, and a request token that differs.\<close>

theorem C9_validateAdminToken_witness:
  "constantTimeEqual (js ''tok'') (js ''tok'') \<and>
   fst (validateAdminToken 1000 (js ''new'') (js ''tok'')
          \<lparr>token = Some (js ''tok''), stored_token = Some (js ''tok''),
           stored_timestamp = Some 0\<rparr>) \<and>
   \<not> fst (validateAdminToken 1000 (js ''new'') (js ''tik'')
          \<lparr>token = Some (js ''tok''), stored_token = Some (js ''tok''),
           stored_timestamp = Some 0\<rparr>)"
proof -
  let ?s = "\<lparr>token = Some (js ''tok''), stored_token = Some (js ''tok''),
           stored_timestamp = Some 0\<rparr>"
  have g: "fst (getToken 1000 (js ''new'') ?s) = Some (js ''tok'')"
    by (simp add: getToken_def truthy_def isTokenExpired_def TOKEN_EXPIRY_def js_def)
  have ne: "js ''tok'' \<noteq> []" "js ''tik'' \<noteq> []" "js ''tok'' \<noteq> js ''tik''"
    by (simp_all add: js_def)
  show ?thesis
    using C9_constantTimeEqual_validateAdminToken
            [of "js ''tok''" "js ''tok''" 1000 "js ''new''" "js ''tok''" ?s]
          C9_constantTimeEqual_validateAdminToken
            [of "js ''tok''" "js ''tok''" 1000 "js ''new''" "js ''tik''" ?s]
    unfolding g using ne by simp
qed

section \<open>Properties of listener notification, getSessionInfo and the refresh call\<close>

section \<open>What the listener loops leave alone\<close>

lemma fold_frame:
  assumes "\<And>w ev. \<exists>dl nf. f w ev = w\<lparr>docListeners := dl, nextFunction := nf\<rparr>"
  shows "\<exists>dl nf. foldl f w evs = w\<lparr>docListeners := dl, nextFunction := nf\<rparr>"
proof (induction evs arbitrary: w)
  case Nil
  show ?case
    unfolding foldl_Nil
    by (rule exI [where x = "docListeners w"], rule exI [where x = "nextFunction w"]) simp
next
  case (Cons ev evs)
  obtain dl0 nf0 where s: "f w ev = w\<lparr>docListeners := dl0, nextFunction := nf0\<rparr>"
    using assms by blast
  obtain dl nf where "foldl f (f w ev) evs = (f w ev)\<lparr>docListeners := dl, nextFunction := nf\<rparr>"
    using Cons.IH by blast
  then have "foldl f w (ev # evs) = w\<lparr>docListeners := dl, nextFunction := nf\<rparr>"
    by (simp add: s)
  then show ?case by blast
qed

lemma attach_step:
  "\<exists>dl nf. (case bind_handleActivity w of (f, w') \<Rightarrow> addEventListener ev f w')
      = w\<lparr>docListeners := dl, nextFunction := nf\<rparr>"
proof (cases "(ev, nextFunction w) \<in> set (docListeners w)")
  case True
  then have "(case bind_handleActivity w of (f, w') \<Rightarrow> addEventListener ev f w')
      = w\<lparr>docListeners := docListeners w, nextFunction := Suc (nextFunction w)\<rparr>"
    by (simp add: bind_handleActivity_def addEventListener_def)
  then show ?thesis by blast
next
  case False
  then have "(case bind_handleActivity w of (f, w') \<Rightarrow> addEventListener ev f w')
      = w\<lparr>docListeners := docListeners w @ [(ev, nextFunction w)],
           nextFunction := Suc (nextFunction w)\<rparr>"
    by (simp add: bind_handleActivity_def addEventListener_def)
  then show ?thesis by blast
qed

lemma detach_step:
  "\<exists>dl nf. (case bind_handleActivity w of (f, w') \<Rightarrow> removeEventListener ev f w')
      = w\<lparr>docListeners := dl, nextFunction := nf\<rparr>"
proof -
  have "(case bind_handleActivity w of (f, w') \<Rightarrow> removeEventListener ev f w')
      = w\<lparr>docListeners := filter (\<lambda>e. e \<noteq> (ev, nextFunction w)) (docListeners w),
           nextFunction := Suc (nextFunction w)\<rparr>"
    by (simp add: bind_handleActivity_def removeEventListener_def)
  then show ?thesis by blast
qed

lemma attach_listeners_frame:
  "attach_listeners w = w\<lparr>docListeners := docListeners (attach_listeners w),
                            nextFunction := nextFunction (attach_listeners w)\<rparr>"
proof -
  obtain dl nf where e: "attach_listeners w = w\<lparr>docListeners := dl, nextFunction := nf\<rparr>"
    unfolding attach_listeners_def
    using fold_frame [where f = "\<lambda>w ev. case bind_handleActivity w of
                                            (f, w') \<Rightarrow> addEventListener ev f w'",
                      OF attach_step]
    by blast
  show ?thesis
    by (simp add: e)
qed

lemma detach_listeners_frame:
  "detach_listeners w = w\<lparr>docListeners := docListeners (detach_listeners w),
                            nextFunction := nextFunction (detach_listeners w)\<rparr>"
proof -
  obtain dl nf where e: "detach_listeners w = w\<lparr>docListeners := dl, nextFunction := nf\<rparr>"
    unfolding detach_listeners_def
    using fold_frame [where f = "\<lambda>w ev. case bind_handleActivity w of
                                            (f, w') \<Rightarrow> removeEventListener ev f w'",
                      OF detach_step]
    by blast
  show ?thesis
    by (simp add: e)
qed

lemma listeners_attach_listeners: "listeners (attach_listeners w) = listeners w"
  by (subst attach_listeners_frame) simp

lemma delivered_attach_listeners: "delivered (attach_listeners w) = delivered w"
  by (subst attach_listeners_frame) simp

section \<open>Listener notification\<close>

lemma notify_fold:
  "foldl (\<lambda>w cb. case invoke cb w of Inr w' \<Rightarrow> w' | Inl w' \<Rightarrow> w') w cbs
     = w\<lparr>delivered := delivered w @ map cb_id cbs\<rparr>"
  by (induction cbs arbitrary: w) (simp_all add: invoke_def Let_def)

lemma notifyListeners_eq:
  "notifyListeners w = w\<lparr>delivered := delivered w @ map cb_id (listeners w)\<rparr>"
  by (simp add: notifyListeners_def notify_fold)

lemma notifyListeners_funpow:
  "(notifyListeners ^^ n) w
     = w\<lparr>delivered := delivered w @ concat (replicate n (map cb_id (listeners w)))\<rparr>"
proof (induction n arbitrary: w)
  case 0
  then show ?case by simp
next
  case (Suc n)
  have "(notifyListeners ^^ Suc n) w = (notifyListeners ^^ n) (notifyListeners w)"
    by (simp only: funpow_Suc_right o_apply)
  also have "\<dots> = w\<lparr>delivered := delivered w @ concat (replicate (Suc n) (map cb_id (listeners w)))\<rparr>"
    unfolding Suc.IH by (simp add: notifyListeners_eq)
  finally show ?case .
qed

text \<open>
  C8. Whichever of the subscribed listeners throw, a notification calls every listener
  once, in subscription order, and changes nothing else in the manager or around it; so
  do \<open>n\<close> notifications in a row: a throwing listener neither stops the round nor
  unsubscribes anyone.
\<close>

theorem C8_throwing_listener_is_isolated:
  "notifyListeners w = w\<lparr>delivered := delivered w @ map cb_id (listeners w)\<rparr> \<and>
   (notifyListeners ^^ n) w
     = w\<lparr>delivered := delivered w @ concat (replicate n (map cb_id (listeners w)))\<rparr>"
  by (simp only: notifyListeners_eq notifyListeners_funpow)

text \<open>
  C7. \<open>getSessionInfo\<close> returns the world it was called in, unchanged (configuration,
  session state, timers, \<open>localStorage\<close> and all the rest), and its \<open>timeRemaining\<close> is
  \<open>max(0, timeoutMinutes * 60 * 1000 - (now - lastActivity))\<close>.
\<close>

theorem C7_getSessionInfo_pure_read:
  "snd (getSessionInfo now w) = w \<and>
   timeRemaining (fst (getSessionInfo now w))
     = max 0 (timeoutMinutes (config w) * 60 * 1000 - (now - lastActivity (state w)))"
  by (simp add: getSessionInfo_def Let_def)

lemma refreshAccessToken_present:
  "present (getItem refreshTokenKey w) \<Longrightarrow>
   refreshAccessToken w =
     (Awaiting (nextRequest w),
      w\<lparr>requests := requests w @ [(nextRequest w, ''/auth/refresh'')],
        nextRequest := Suc (nextRequest w)\<rparr>)"
  by (simp add: refreshAccessToken_def post_def)

lemma refresh_calls_present:
  "present (getItem refreshTokenKey w) \<Longrightarrow>
   refresh_calls n w =
     (map Awaiting [nextRequest w ..< nextRequest w + n],
      w\<lparr>requests := requests w @ map (\<lambda>i. (i, ''/auth/refresh'')) [nextRequest w ..< nextRequest w + n],
        nextRequest := nextRequest w + n\<rparr>)"
proof (induction n arbitrary: w)
  case 0
  then show ?case by simp
next
  case (Suc n)
  let ?w = "w\<lparr>requests := requests w @ [(nextRequest w, ''/auth/refresh'')],
              nextRequest := Suc (nextRequest w)\<rparr>"
  have p: "present (getItem refreshTokenKey ?w)"
    using Suc.prems by (simp add: getItem_def)
  have up: "[nextRequest w ..< Suc (nextRequest w + n)]
              = nextRequest w # [Suc (nextRequest w) ..< Suc (nextRequest w + n)]"
    by (simp add: upt_conv_Cons)
  have step: "refresh_calls (Suc n) w =
      (case refresh_calls n ?w of (rs, w'') \<Rightarrow> (Awaiting (nextRequest w) # rs, w''))"
    by (simp add: refreshAccessToken_present [OF Suc.prems])
  show ?case
    unfolding step Suc.IH [OF p]
    by (simp add: up del: upt_Suc)
qed


lemma in_flight_append:
  "in_flight e (w\<lparr>requests := requests w @ rs, nextRequest := k\<rparr>)
     = in_flight e w + length (filter (\<lambda>r. snd r = e) rs)"
  by (simp add: in_flight_def)

text \<open>
  C1, as the code has it. \<open>refreshAccessToken\<close> keeps no handle on a refresh in flight:
  while a refresh token is stored, each of \<open>n\<close> calls made before any answer arrives
  sends its own \<open>POST /auth/refresh\<close> and awaits that request, so \<open>n\<close> more refresh
  requests are in flight afterwards.
\<close>

theorem C1_every_refresh_call_sends_its_own_request:
  "present (getItem refreshTokenKey w) \<Longrightarrow>
   fst (refresh_calls n w) = map Awaiting [nextRequest w ..< nextRequest w + n] \<and>
   distinct (fst (refresh_calls n w)) \<and>
   in_flight ''/auth/refresh'' (snd (refresh_calls n w)) = in_flight ''/auth/refresh'' w + n"
proof -
  assume p: "present (getItem refreshTokenKey w)"
  have f: "filter (\<lambda>r. snd r = ''/auth/refresh'')
             (map (\<lambda>i. (i, ''/auth/refresh'')) [nextRequest w ..< nextRequest w + n])
           = map (\<lambda>i. (i, ''/auth/refresh'')) [nextRequest w ..< nextRequest w + n]"
    by (simp add: filter_map o_def)
  show ?thesis
    unfolding refresh_calls_present [OF p] fst_conv snd_conv in_flight_append f
    by (simp add: distinct_map inj_on_def)
qed

theorem C1_refresh_calls_witness:
  "fst (refresh_calls 3 a_browser) = [Awaiting 0, Awaiting 1, Awaiting 2] \<and>
   in_flight ''/auth/refresh'' (snd (refresh_calls 3 a_browser)) = 3"
proof -
  have p: "present (getItem refreshTokenKey a_browser)"
    by (simp add: a_browser_def stored_session_def getItem_def present_def refreshTokenKey_def)
  have z: "in_flight ''/auth/refresh'' a_browser = 0" "nextRequest a_browser = 0"
    by (simp_all add: a_browser_def in_flight_def)
  have u: "[0 ..< 3] = [0, 1, 2::nat]"
    by (simp add: upt_rec)
  show ?thesis
    using C1_every_refresh_call_sends_its_own_request [OF p, of 3]
    by (simp add: z u)
qed

text \<open>
  Two calls in a row with a stored refresh token: two refresh requests are in flight, and
  the two callers wait for different requests.
\<close>

theorem C1_two_refresh_requests_in_flight_counterexample:
  "fst (refresh_calls 2 a_browser) = [Awaiting 0, Awaiting 1] \<and>
   requests (snd (refresh_calls 2 a_browser)) = [(0, ''/auth/refresh''), (1, ''/auth/refresh'')]"
  by (simp add: numeral_2_eq_2 refreshAccessToken_def post_def a_browser_def stored_session_def
                getItem_def present_def refreshTokenKey_def)

lemma request_network_failure:
  "request FetchRejected =
     Inl (SuperAdminApiError (Some ''Network request failed'') (Some ''NETWORK_ERROR'') (Some 0))"
  by (simp add: request_def)

lemma request_not_ok: "\<not> ok status \<Longrightarrow> \<exists>m c s. request (FetchResponse status b) = Inl (SuperAdminApiError m c s)"
  by (cases b) (auto simp: request_def handleResponse_def Let_def split: option.splits)

lemma resume_thrown_api_error:
  "refreshAccessToken_resume (Inl (SuperAdminApiError m c s)) w = (False, w)"
  by (simp add: refreshAccessToken_resume_def SuperAdminApiError_def)

lemma localStorage_settle: "localStorage (settle rid w) = localStorage w"
  by (simp add: settle_def)

lemma localStorage_logout:
  "localStorage (logout w)
     = (localStorage w)(tokenKey := None, refreshTokenKey := None, userKey := None)"
  by (simp add: logout_def post_def removeItem_def)

text \<open>
  C2, as the code has it. A refresh whose request fails on the network resolves to false
  and leaves \<open>localStorage\<close> as it was; a refresh answered with HTTP 401 resolves to
  false; a refresh whose answer carries an access token and a user who is not a
  superadmin resolves to false and removes \<open>adminToken\<close>, \<open>adminRefreshToken\<close> and
  \<open>adminUser\<close>.
\<close>

theorem C2_refresh_failure:
  "(fst (refresh_completes rid FetchRejected w) = False \<and>
    localStorage (snd (refresh_completes rid FetchRejected w)) = localStorage w) \<and>
   fst (refresh_completes rid (FetchResponse 401 b) w) = False \<and>
   (ok status \<and> accessToken d = Some tok \<and> tok \<noteq> [] \<and> user d = Some u
      \<and> user_role u \<noteq> ''superadmin'' \<longrightarrow>
    fst (refresh_completes rid (FetchResponse status (JsonBody d)) w) = False \<and>
    localStorage (snd (refresh_completes rid (FetchResponse status (JsonBody d)) w)) ''adminToken'' = None \<and>
    localStorage (snd (refresh_completes rid (FetchResponse status (JsonBody d)) w)) ''adminRefreshToken'' = None \<and>
    localStorage (snd (refresh_completes rid (FetchResponse status (JsonBody d)) w)) ''adminUser'' = None)"
proof (intro conjI impI)
  show "fst (refresh_completes rid FetchRejected w) = False"
    by (simp add: refresh_completes_def request_network_failure resume_thrown_api_error)
  show "localStorage (snd (refresh_completes rid FetchRejected w)) = localStorage w"
    by (simp add: refresh_completes_def request_network_failure resume_thrown_api_error
                  localStorage_settle)
  show "fst (refresh_completes rid (FetchResponse 401 b) w) = False"
  proof -
    have "\<not> ok 401" by (simp add: ok_def)
    then obtain m c s where "request (FetchResponse 401 b) = Inl (SuperAdminApiError m c s)"
      using request_not_ok by blast
    then show ?thesis
      by (simp add: refresh_completes_def resume_thrown_api_error)
  qed
next
  assume h: "ok status \<and> accessToken d = Some tok \<and> tok \<noteq> [] \<and> user d = Some u
      \<and> user_role u \<noteq> ''superadmin''"
  then have r: "refresh_completes rid (FetchResponse status (JsonBody d)) w
                  = (False, logout (settle rid w))"
    by (simp add: refresh_completes_def request_def handleResponse_def
                  refreshAccessToken_resume_def)
  show "fst (refresh_completes rid (FetchResponse status (JsonBody d)) w) = False"
    by (simp add: r)
  show "localStorage (snd (refresh_completes rid (FetchResponse status (JsonBody d)) w)) ''adminToken'' = None"
    by (simp add: r localStorage_logout tokenKey_def refreshTokenKey_def userKey_def)
  show "localStorage (snd (refresh_completes rid (FetchResponse status (JsonBody d)) w)) ''adminRefreshToken'' = None"
    by (simp add: r localStorage_logout tokenKey_def refreshTokenKey_def userKey_def)
  show "localStorage (snd (refresh_completes rid (FetchResponse status (JsonBody d)) w)) ''adminUser'' = None"
    by (simp add: r localStorage_logout tokenKey_def refreshTokenKey_def userKey_def)
qed

theorem C2_refresh_failure_witness:
  "fst (refresh_completes 0 (FetchResponse 200 (JsonBody intruder_reply))
         (snd (refreshAccessToken a_browser))) = False \<and>
   localStorage (snd (refresh_completes 0 (FetchResponse 200 (JsonBody intruder_reply))
         (snd (refreshAccessToken a_browser)))) ''adminRefreshToken'' = None"
proof -
  have h: "ok 200 \<and> accessToken intruder_reply = Some ''fresh'' \<and> ''fresh'' \<noteq> []
             \<and> user intruder_reply = Some (admin_user\<lparr>user_role := ''editor''\<rparr>)
             \<and> user_role (admin_user\<lparr>user_role := ''editor''\<rparr>) \<noteq> ''superadmin''"
    by (simp add: ok_def intruder_reply_def)
  show ?thesis
    using C2_refresh_failure
            [of 0 "snd (refreshAccessToken a_browser)" BadJson 200 intruder_reply "''fresh''"
                "admin_user\<lparr>user_role := ''editor''\<rparr>"] h
    by simp
qed

text \<open>
  A refresh that fails on the network resolves to false, and the access token is still
  stored afterwards.
\<close>

theorem C2_network_failure_keeps_tokens_counterexample:
  "fst (refresh_completes 0 FetchRejected (snd (refreshAccessToken a_browser))) = False \<and>
   localStorage (snd (refresh_completes 0 FetchRejected (snd (refreshAccessToken a_browser))))
      ''adminToken'' = Some (Text ''access'')"
  by (simp add: refresh_completes_def request_network_failure resume_thrown_api_error
                localStorage_settle refreshAccessToken_def post_def a_browser_def
                stored_session_def getItem_def present_def refreshTokenKey_def)

text \<open>
  After an HTTP 401 the \<open>catch\<close> block reads \<open>error.response?.status\<close>, which a
  \<open>SuperAdminApiError\<close> does not have (\<open>verifyToken\<close> reads \<open>error.status\<close>): the
  \<open>logout()\<close> behind that test does not run and the stored tokens stay.
\<close>

lemma refresh_401_keeps_tokens:
  "localStorage (snd (refresh_completes rid (FetchResponse 401 b) w)) = localStorage w"
proof -
  have "\<not> ok 401" by (simp add: ok_def)
  then obtain m c s where "request (FetchResponse 401 b) = Inl (SuperAdminApiError m c s)"
    using request_not_ok by blast
  then show ?thesis
    by (simp add: refresh_completes_def resume_thrown_api_error localStorage_settle)
qed

section \<open>The operations of the session manager as equations\<close>

lemma clearTimeouts_eq:
  "clearTimeouts w =
     w\<lparr>timers := filter (\<lambda>e. \<not> owned (state w) (fst e)) (timers w),
       state := (state w)\<lparr>timeoutId := None, warningTimeoutId := None\<rparr>\<rparr>"
proof (cases "timeoutId (state w)")
  case None
  note a = None
  have st: "(state w)\<lparr>timeoutId := None\<rparr> = state w"
    using a by simp
  show ?thesis
  proof (cases "warningTimeoutId (state w)")
    case None
    have o: "\<And>h. owned (state w) h = False"
      using a None by (simp add: owned_def)
    have st': "(state w)\<lparr>warningTimeoutId := None\<rparr> = state w"
      using None by simp
    show ?thesis
      using a None by (simp add: clearTimeouts_def o st st')
  next
    case (Some b)
    have o: "\<And>h. owned (state w) h = (h = b)"
      using a Some by (auto simp: owned_def)
    show ?thesis
      using a Some by (simp add: clearTimeouts_def clearTimeout_def remove_timer_def o st)
  qed
next
  case (Some a)
  note a = Some
  show ?thesis
  proof (cases "warningTimeoutId (state w)")
    case None
    have o: "\<And>h. owned (state w) h = (h = a)"
      using a None by (auto simp: owned_def)
    have st': "(state w)\<lparr>timeoutId := None, warningTimeoutId := None\<rparr>
                 = (state w)\<lparr>timeoutId := None\<rparr>"
      using None by simp
    show ?thesis
      unfolding st' using a None
      by (simp add: clearTimeouts_def clearTimeout_def remove_timer_def o)
  next
    case (Some b)
    have o: "\<And>h. owned (state w) h = (h = a \<or> h = b)"
      using a Some by (auto simp: owned_def)
    show ?thesis
      using a Some
      by (simp add: clearTimeouts_def clearTimeout_def remove_timer_def o)
  qed
qed

lemma scheduleTimeouts_eq:
  "scheduleTimeouts w =
     w\<lparr>timers := filter (\<lambda>e. \<not> owned (state w) (fst e)) (timers w)
                  @ [(nextHandle w,
                      WarningTimeout ((timeoutMinutes (config w) - warningMinutes (config w)) * 60 * 1000)),
                     (Suc (nextHandle w), SessionTimeout (timeoutMinutes (config w) * 60 * 1000))],
       nextHandle := Suc (Suc (nextHandle w)),
       state := (state w)\<lparr>timeoutId := Some (Suc (nextHandle w)),
                          warningTimeoutId := Some (nextHandle w)\<rparr>\<rparr>"
  by (simp add: scheduleTimeouts_def clearTimeouts_eq setTimeout_def Let_def)

lemma handleActivity_throttled:
  "now - lastActivity (state w) < 1000 \<Longrightarrow> handleActivity now w = w"
  by (simp add: handleActivity_def)

lemma handleActivity_accepted:
  "\<not> now - lastActivity (state w) < 1000 \<Longrightarrow>
   handleActivity now w =
     w\<lparr>timers := filter (\<lambda>e. \<not> owned (state w) (fst e)) (timers w)
                  @ [(nextHandle w,
                      WarningTimeout ((timeoutMinutes (config w) - warningMinutes (config w)) * 60 * 1000)),
                     (Suc (nextHandle w), SessionTimeout (timeoutMinutes (config w) * 60 * 1000))],
       nextHandle := Suc (Suc (nextHandle w)),
       state := (state w)\<lparr>lastActivity := now, warningShown := False,
                          timeoutId := Some (Suc (nextHandle w)),
                          warningTimeoutId := Some (nextHandle w)\<rparr>,
       delivered := delivered w @ map cb_id (listeners w)\<rparr>"
  by (simp add: handleActivity_def scheduleTimeouts_eq notifyListeners_eq owned_def)

lemma extendSession_eq:
  "extendSession now w =
     w\<lparr>timers := filter (\<lambda>e. \<not> owned (state w) (fst e)) (timers w)
                  @ [(nextHandle w,
                      WarningTimeout ((timeoutMinutes (config w) - warningMinutes (config w)) * 60 * 1000)),
                     (Suc (nextHandle w), SessionTimeout (timeoutMinutes (config w) * 60 * 1000))],
       nextHandle := Suc (Suc (nextHandle w)),
       state := (state w)\<lparr>lastActivity := now, warningShown := False,
                          timeoutId := Some (Suc (nextHandle w)),
                          warningTimeoutId := Some (nextHandle w)\<rparr>\<rparr>"
  by (simp add: extendSession_def scheduleTimeouts_eq owned_def)

lemma stop_active:
  "isActive (state w) \<Longrightarrow>
   stop w =
     w\<lparr>timers := filter (\<lambda>e. \<not> owned (state w) (fst e)) (timers w),
       state := (state w)\<lparr>isActive := False, timeoutId := None, warningTimeoutId := None\<rparr>,
       docListeners := docListeners (detach_listeners (w\<lparr>state := (state w)\<lparr>isActive := False\<rparr>\<rparr>)),
       nextFunction := nextFunction (detach_listeners (w\<lparr>state := (state w)\<lparr>isActive := False\<rparr>\<rparr>))\<rparr>"
proof -
  assume a: "isActive (state w)"
  let ?w1 = "w\<lparr>state := (state w)\<lparr>isActive := False\<rparr>\<rparr>"
  have "stop w = clearTimeouts (detach_listeners ?w1)"
    using a by (simp add: stop_def)
  also have "\<dots> = clearTimeouts (?w1\<lparr>docListeners := docListeners (detach_listeners ?w1),
                                     nextFunction := nextFunction (detach_listeners ?w1)\<rparr>)"
    by (subst detach_listeners_frame) (rule refl)
  finally show ?thesis
    by (simp add: clearTimeouts_eq owned_def)
qed

lemma stop_inactive: "\<not> isActive (state w) \<Longrightarrow> stop w = w"
  by (simp add: stop_def)

lemma start_inactive:
  "\<not> isActive (state w) \<Longrightarrow>
   start now w =
     w\<lparr>timers := filter (\<lambda>e. \<not> owned (state w) (fst e)) (timers w)
                  @ [(nextHandle w,
                      WarningTimeout ((timeoutMinutes (config w) - warningMinutes (config w)) * 60 * 1000)),
                     (Suc (nextHandle w), SessionTimeout (timeoutMinutes (config w) * 60 * 1000)),
                     (Suc (Suc (nextHandle w)), PeriodicCheck (checkIntervalMs (config w)))],
       nextHandle := Suc (Suc (Suc (nextHandle w))),
       state := (state w)\<lparr>isActive := True, lastActivity := now,
                          timeoutId := Some (Suc (nextHandle w)),
                          warningTimeoutId := Some (nextHandle w)\<rparr>,
       docListeners := docListeners (attach_listeners
                         (w\<lparr>state := (state w)\<lparr>isActive := True, lastActivity := now\<rparr>\<rparr>)),
       nextFunction := nextFunction (attach_listeners
                         (w\<lparr>state := (state w)\<lparr>isActive := True, lastActivity := now\<rparr>\<rparr>))\<rparr>"
proof -
  assume a: "\<not> isActive (state w)"
  let ?w1 = "w\<lparr>state := (state w)\<lparr>isActive := True, lastActivity := now\<rparr>\<rparr>"
  have "start now w = startPeriodicCheck (scheduleTimeouts (attach_listeners ?w1))"
    using a by (simp add: start_def)
  also have "\<dots> = startPeriodicCheck (scheduleTimeouts
                       (?w1\<lparr>docListeners := docListeners (attach_listeners ?w1),
                            nextFunction := nextFunction (attach_listeners ?w1)\<rparr>))"
    by (subst attach_listeners_frame) (rule refl)
  finally show ?thesis
    by (simp add: scheduleTimeouts_eq startPeriodicCheck_def setInterval_def owned_def)
qed

lemma handleSessionTimeout_eq:
  "handleSessionTimeout w =
     (stop w)\<lparr>localStorage := (localStorage (stop w))(''adminToken'' := None, ''adminUser'' := None),
              alerts := Suc (alerts (stop w)),
              location := location (stop w) @ [''/login'']\<rparr>"
  by (simp add: handleSessionTimeout_def clearAdminAuthData_def removeItem_def Let_def)

section \<open>The activity throttle\<close>

lemma lastActivity_handleActivity:
  "lastActivity (state (handleActivity now w))
     = (if now - lastActivity (state w) < 1000 then lastActivity (state w) else now)"
  by (simp add: handleActivity_throttled handleActivity_accepted)

lemma updates_none:
  "\<forall>t \<in> set ts. t - lastActivity (state w) < 1000 \<Longrightarrow> updates ts w = 0"
  by (induction ts arbitrary: w) (simp_all add: handleActivity_throttled)

lemma updates_window:
  "\<forall>t \<in> set ts. t0 \<le> t \<and> t < t0 + 1000 \<Longrightarrow> updates ts w \<le> 1"
proof (induction ts arbitrary: w)
  case Nil
  then show ?case by simp
next
  case (Cons t ts)
  show ?case
  proof (cases "t - lastActivity (state w) < 1000")
    case True
    then have "handleActivity t w = w"
      by (rule handleActivity_throttled)
    then show ?thesis
      using Cons.IH [of w] Cons.prems by simp
  next
    case False
    have la: "lastActivity (state (handleActivity t w)) = t"
      using False by (simp add: lastActivity_handleActivity)
    have "\<forall>t' \<in> set ts. t' - lastActivity (state (handleActivity t w)) < 1000"
      unfolding la using Cons.prems by auto
    then have "updates ts (handleActivity t w) = 0"
      by (rule updates_none)
    then show ?thesis by simp
  qed
qed

text \<open>
  C6. An activity event less than 1000 ms after \<open>lastActivity\<close> changes nothing. An
  accepted one sets \<open>lastActivity\<close> to the current time, clears \<open>warningShown\<close> and
  reschedules: the two timers the manager held are gone and a new warning timeout and a
  new session timeout are active under the handles it now holds. \<open>lastActivity\<close> never
  decreases, and over events whose times all lie in one window of 1000 ms it changes at
  most once.
\<close>

theorem C6_activity_throttle:
  "(now - lastActivity (state w) < 1000 \<longrightarrow> handleActivity now w = w) \<and>
   (\<not> now - lastActivity (state w) < 1000 \<longrightarrow>
      lastActivity (state (handleActivity now w)) = now \<and>
      \<not> warningShown (state (handleActivity now w)) \<and>
      timeoutId (state (handleActivity now w)) = Some (Suc (nextHandle w)) \<and>
      warningTimeoutId (state (handleActivity now w)) = Some (nextHandle w) \<and>
      timers (handleActivity now w) =
        filter (\<lambda>e. \<not> owned (state w) (fst e)) (timers w)
        @ [(nextHandle w,
            WarningTimeout ((timeoutMinutes (config w) - warningMinutes (config w)) * 60 * 1000)),
           (Suc (nextHandle w), SessionTimeout (timeoutMinutes (config w) * 60 * 1000))]) \<and>
   lastActivity (state w) \<le> lastActivity (state (handleActivity now w)) \<and>
   ((\<forall>t \<in> set ts. t0 \<le> t \<and> t < t0 + 1000) \<longrightarrow> updates ts w \<le> 1)"
proof (intro conjI impI)
  assume "now - lastActivity (state w) < 1000"
  then show "handleActivity now w = w"
    by (rule handleActivity_throttled)
next
  show "lastActivity (state w) \<le> lastActivity (state (handleActivity now w))"
    by (simp add: lastActivity_handleActivity)
next
  assume "\<forall>t \<in> set ts. t0 \<le> t \<and> t < t0 + 1000"
  then show "updates ts w \<le> 1"
    by (rule updates_window)
qed (simp_all add: handleActivity_accepted)

text \<open>The manager started at time 0 on a stored session.\<close>

lemma active_world_state:
  "state active_world =
     \<lparr>lastActivity = 0, isActive = True, warningShown = False,
      timeoutId = Some 2, warningTimeoutId = Some 1\<rparr>"
  by (simp add: active_world_def start_inactive initial_def numeral_2_eq_2)

lemma active_world_timers:
  "timers active_world =
     [(1, WarningTimeout 27000000), (2, SessionTimeout 28800000), (3, PeriodicCheck 300000)]"
  by (simp add: active_world_def start_inactive initial_def default_config_def
                numeral_2_eq_2 numeral_3_eq_3)

lemma active_world_rest:
  "listeners active_world = []" "delivered active_world = []" "location active_world = []"
  "nextHandle active_world = 4" "localStorage active_world = stored_session"
  "config active_world = default_config" "alerts active_world = 0"
  by (simp_all add: active_world_def start_inactive initial_def)

theorem C6_activity_throttle_witness:
  "handleActivity 999 active_world = active_world \<and>
   lastActivity (state (handleActivity 1000 active_world)) = 1000 \<and>
   updates [1000, 1001, 1500, 1999] active_world = 1"
proof -
  have la: "lastActivity (state active_world) = 0"
    by (simp add: active_world_state)
  have w: "\<forall>t \<in> set [1000, 1001, 1500, 1999 :: int]. 1000 \<le> t \<and> t < 1000 + 1000"
    by simp
  have ge: "1 \<le> updates [1000, 1001, 1500, 1999] active_world"
    by (simp add: lastActivity_handleActivity la)
  have a: "handleActivity 999 active_world = active_world"
    using C6_activity_throttle [of 999 active_world "[]" 0] la by simp
  have b: "lastActivity (state (handleActivity 1000 active_world)) = 1000"
    using C6_activity_throttle [of 1000 active_world "[]" 0] la by simp
  have c: "updates [1000, 1001, 1500, 1999] active_world \<le> 1"
    using C6_activity_throttle [of 0 active_world "[1000, 1001, 1500, 1999]" 1000] w by blast
  show ?thesis
    using a b c ge by simp
qed

text \<open>
  Two listeners, the first of which throws: both are called, in this notification and in
  the next.
\<close>

theorem C8_throwing_listener_witness:
  "delivered (notifyListeners
     (addListener (Callback 2 False) (addListener (Callback 1 True) active_world))) = [1, 2] \<and>
   delivered ((notifyListeners ^^ 2)
     (addListener (Callback 2 False) (addListener (Callback 1 True) active_world))) = [1, 2, 1, 2]"
proof -
  let ?w = "addListener (Callback 2 False) (addListener (Callback 1 True) active_world)"
  have l: "listeners ?w = [Callback 1 True, Callback 2 False]"
    by (simp add: addListener_def active_world_rest)
  have d: "delivered ?w = []"
    by (simp add: addListener_def active_world_rest)
  note t = C8_throwing_listener_is_isolated [of ?w 2]
  have "delivered (notifyListeners ?w) = delivered ?w @ map cb_id (listeners ?w)"
    by (subst t [THEN conjunct1]) simp
  then have one: "delivered (notifyListeners ?w) = [1, 2]"
    unfolding l d by simp
  have "delivered ((notifyListeners ^^ 2) ?w)
          = delivered ?w @ concat (replicate 2 (map cb_id (listeners ?w)))"
    by (subst t [THEN conjunct2]) simp
  then have two: "delivered ((notifyListeners ^^ 2) ?w) = [1, 2, 1, 2]"
    unfolding l d by (simp add: numeral_2_eq_2)
  show ?thesis
    using one two by (rule conjI)
qed

section \<open>The timers of every reachable state are in order\<close>

lemma is_periodic_simps:
  "is_periodic (WarningTimeout a) = False" "is_periodic (SessionTimeout a) = False"
  "is_periodic (PeriodicCheck a) = True"
  by (simp_all add: is_periodic_def)

lemma timers_inv_iff:
  "timers_inv w \<longleftrightarrow>
     (\<forall>e \<in> set (timers w). fst e < nextHandle w
                              \<and> is_periodic (snd e) = (\<not> owned (state w) (fst e)))
     \<and> (\<forall>h. owned (state w) h \<longrightarrow> h < nextHandle w)"
  by (auto simp: timers_inv_def list_all_iff handle_below_def owned_def split: option.splits)

lemma timers_inv_cong:
  "timers w' = timers w \<Longrightarrow> nextHandle w' = nextHandle w \<Longrightarrow>
   timeoutId (state w') = timeoutId (state w) \<Longrightarrow>
   warningTimeoutId (state w') = warningTimeoutId (state w) \<Longrightarrow>
   timers_inv w' = timers_inv w"
  by (simp add: timers_inv_iff owned_def)

lemma timers_inv_initial: "timers_inv (initial t0 store)"
  by (simp add: timers_inv_iff initial_def owned_def)

lemma timers_inv_rescheduled:
  assumes "timers_inv w"
    and t: "timers w' = filter (\<lambda>e. \<not> owned (state w) (fst e)) (timers w)
                        @ [(nextHandle w, WarningTimeout a), (Suc (nextHandle w), SessionTimeout b)]"
    and n: "nextHandle w' = Suc (Suc (nextHandle w))"
    and h: "timeoutId (state w') = Some (Suc (nextHandle w))"
           "warningTimeoutId (state w') = Some (nextHandle w)"
  shows "timers_inv w'"
proof -
  have o: "\<And>k. owned (state w') k = (k = Suc (nextHandle w) \<or> k = nextHandle w)"
    using h by (auto simp: owned_def)
  have old: "\<And>k t. (k, t) \<in> set (timers w) \<Longrightarrow> \<not> owned (state w) k \<Longrightarrow>
               k < nextHandle w \<and> is_periodic t"
    using assms(1) by (auto simp: timers_inv_iff)
  have lt: "\<And>k t. (k, t) \<in> set (timers w) \<Longrightarrow> \<not> owned (state w) k \<Longrightarrow>
               k < Suc (Suc (nextHandle w)) \<and> k \<noteq> Suc (nextHandle w) \<and> k \<noteq> nextHandle w"
    using old by fastforce
  show ?thesis
    unfolding timers_inv_iff t n o
    using old lt by (auto simp: is_periodic_simps)
qed

lemma timers_inv_cleared:
  assumes "timers_inv w"
    and t: "timers w' = filter (\<lambda>e. \<not> owned (state w) (fst e)) (timers w)"
    and n: "nextHandle w' = nextHandle w"
    and h: "timeoutId (state w') = None" "warningTimeoutId (state w') = None"
  shows "timers_inv w'"
proof -
  have o: "\<And>k. owned (state w') k = False"
    using h by (simp add: owned_def)
  show ?thesis
    unfolding timers_inv_iff t n o
    using assms(1) by (auto simp: timers_inv_iff)
qed

lemma timers_inv_scheduleTimeouts: "timers_inv w \<Longrightarrow> timers_inv (scheduleTimeouts w)"
  by (erule timers_inv_rescheduled) (simp_all add: scheduleTimeouts_eq)

lemma timers_inv_extendSession: "timers_inv w \<Longrightarrow> timers_inv (extendSession now w)"
  by (erule timers_inv_rescheduled) (simp_all add: extendSession_eq)

lemma timers_inv_handleActivity: "timers_inv w \<Longrightarrow> timers_inv (handleActivity now w)"
proof (cases "now - lastActivity (state w) < 1000")
  case True
  assume "timers_inv w"
  then show ?thesis using True by (simp add: handleActivity_throttled)
next
  case False
  assume "timers_inv w"
  then show ?thesis
    by (rule timers_inv_rescheduled) (simp_all add: handleActivity_accepted [OF False])
qed

lemma timers_inv_stop: "timers_inv w \<Longrightarrow> timers_inv (stop w)"
proof (cases "isActive (state w)")
  case True
  assume "timers_inv w"
  then show ?thesis
    by (rule timers_inv_cleared) (simp_all add: stop_active [OF True])
next
  case False
  assume "timers_inv w"
  then show ?thesis using False by (simp add: stop_inactive)
qed

lemma timers_inv_start: "timers_inv w \<Longrightarrow> timers_inv (start now w)"
proof (cases "isActive (state w)")
  case True
  assume "timers_inv w"
  then show ?thesis using True by (simp add: start_def)
next
  case False
  assume i: "timers_inv w"
  let ?w = "scheduleTimeouts w"
  have s: "timers_inv ?w"
    using i by (rule timers_inv_scheduleTimeouts)
  have t: "timers (start now w)
             = timers ?w @ [(nextHandle ?w, PeriodicCheck (checkIntervalMs (config w)))]"
    by (simp add: start_inactive [OF False] scheduleTimeouts_eq)
  have n: "nextHandle (start now w) = Suc (nextHandle ?w)"
    by (simp add: start_inactive [OF False] scheduleTimeouts_eq)
  have h: "timeoutId (state (start now w)) = timeoutId (state ?w)"
          "warningTimeoutId (state (start now w)) = warningTimeoutId (state ?w)"
    by (simp_all add: start_inactive [OF False] scheduleTimeouts_eq)
  have o: "\<And>k. owned (state (start now w)) k = owned (state ?w) k"
    using h by (simp add: owned_def)
  show ?thesis
    unfolding timers_inv_iff t n o
    using s by (fastforce simp: timers_inv_iff is_periodic_simps)
qed

lemma timers_inv_remove_timer: "timers_inv w \<Longrightarrow> timers_inv (remove_timer h w)"
  by (auto simp: timers_inv_iff remove_timer_def)

lemma timers_inv_handleSessionTimeout:
  "timers_inv w \<Longrightarrow> timers_inv (handleSessionTimeout w)"
proof -
  assume "timers_inv w"
  then have "timers_inv (stop w)"
    by (rule timers_inv_stop)
  moreover have "timers_inv (handleSessionTimeout w) = timers_inv (stop w)"
    by (rule timers_inv_cong) (simp_all add: handleSessionTimeout_eq)
  ultimately show ?thesis by simp
qed

lemma timers_inv_showTimeoutWarning:
  "timers_inv w \<Longrightarrow> timers_inv (showTimeoutWarning c now w)"
proof -
  assume i: "timers_inv w"
  let ?w1 = "w\<lparr>state := (state w)\<lparr>warningShown := True\<rparr>\<rparr>"
  have "timers_inv ?w1 = timers_inv w"
    by (rule timers_inv_cong) simp_all
  then have "timers_inv ?w1" using i by simp
  then show ?thesis
    using i
    by (simp add: showTimeoutWarning_def Let_def timers_inv_extendSession
                  timers_inv_handleSessionTimeout)
qed

lemma timers_inv_periodicCheck: "timers_inv w \<Longrightarrow> timers_inv (periodicCheck now w)"
proof -
  assume i: "timers_inv w"
  have "timers_inv (validateSessionWithBackend w) = timers_inv w"
    by (rule timers_inv_cong) (simp_all add: validateSessionWithBackend_def)
  then show ?thesis
    using i by (simp add: periodicCheck_def Let_def timers_inv_handleSessionTimeout)
qed

lemma timers_inv_fire: "timers_inv w \<Longrightarrow> timers_inv (fire h c now w)"
proof -
  assume i: "timers_inv w"
  show ?thesis
  proof (cases "map_of (timers w) h")
    case None
    then show ?thesis using i by (simp add: fire_def)
  next
    case (Some t)
    then show ?thesis
      using i
      by (cases t)
         (simp_all add: fire_def timers_inv_showTimeoutWarning timers_inv_handleSessionTimeout
                        timers_inv_periodicCheck timers_inv_remove_timer)
  qed
qed

lemma timers_inv_dispatchEvent: "timers_inv w \<Longrightarrow> timers_inv (dispatchEvent ev now w)"
proof -
  have "\<And>w. timers_inv w \<Longrightarrow> timers_inv (foldl (\<lambda>w f. handleActivity now w) w fs)" for fs :: "(string \<times> nat) list"
    by (induction fs) (simp_all add: timers_inv_handleActivity)
  then show "timers_inv w \<Longrightarrow> timers_inv (dispatchEvent ev now w)"
    by (simp add: dispatchEvent_def)
qed

lemma timers_inv_updateConfig: "timers_inv w \<Longrightarrow> timers_inv (updateConfig p w)"
proof -
  assume i: "timers_inv w"
  let ?w1 = "w\<lparr>config := merge_config (config w) p\<rparr>"
  have "timers_inv ?w1 = timers_inv w"
    by (rule timers_inv_cong) simp_all
  then have "timers_inv ?w1" using i by simp
  then show ?thesis
    by (simp add: updateConfig_def Let_def timers_inv_scheduleTimeouts)
qed

lemma timers_inv_step: "timers_inv w \<Longrightarrow> timers_inv (step w e)"
proof (cases e)
  case (AddListener cb)
  have "timers_inv (addListener cb w) = timers_inv w"
    by (rule timers_inv_cong) (simp_all add: addListener_def)
  moreover assume "timers_inv w"
  ultimately show ?thesis using AddListener by simp
next
  case (RemoveListener cb)
  have "timers_inv (removeListener cb w) = timers_inv w"
    by (rule timers_inv_cong) (simp_all add: removeListener_def)
  moreover assume "timers_inv w"
  ultimately show ?thesis using RemoveListener by simp
next
  case (GetSessionInfo now)
  assume "timers_inv w"
  then show ?thesis using GetSessionInfo by (simp add: getSessionInfo_def Let_def)
next
  case (LoginStored a r u)
  have "timers_inv (login_store a r u w) = timers_inv w"
    by (rule timers_inv_cong) (simp_all add: login_store_def setItem_def)
  moreover assume "timers_inv w"
  ultimately show ?thesis using LoginStored by simp
next
  case Logout
  have "timers_inv (logout w) = timers_inv w"
    by (rule timers_inv_cong) (simp_all add: logout_def post_def removeItem_def)
  moreover assume "timers_inv w"
  ultimately show ?thesis using Logout by simp
qed (simp_all add: timers_inv_start timers_inv_stop timers_inv_dispatchEvent timers_inv_fire
                   timers_inv_extendSession timers_inv_updateConfig)

lemma timers_inv_run: "timers_inv w \<Longrightarrow> timers_inv (run evs w)"
  unfolding run_def by (induction evs arbitrary: w) (simp_all add: timers_inv_step)

section \<open>An inactive manager holds no timeout\<close>

lemma idle_inv_cong:
  "state w' = state w \<Longrightarrow> idle_inv w' = idle_inv w"
  by (simp add: idle_inv_def)

lemma idle_inv_active: "isActive (state w) \<Longrightarrow> idle_inv w"
  by (simp add: idle_inv_def)

lemma isActive_start: "isActive (state (start now w))"
proof (cases "isActive (state w)")
  case True
  then show ?thesis by (simp add: start_def)
next
  case False
  then show ?thesis by (simp add: start_inactive)
qed

lemma isActive_handleActivity: "isActive (state (handleActivity now w)) = isActive (state w)"
  by (cases "now - lastActivity (state w) < 1000")
     (simp_all add: handleActivity_throttled handleActivity_accepted)

lemma isActive_dispatchEvent: "isActive (state (dispatchEvent ev now w)) = isActive (state w)"
proof -
  have "isActive (state (foldl (\<lambda>w f. handleActivity now w) w fs)) = isActive (state w)"
    for fs :: "(string \<times> nat) list"
    by (induction fs arbitrary: w) (simp_all add: isActive_handleActivity)
  then show ?thesis
    by (simp add: dispatchEvent_def)
qed

lemma idle_inv_stop: "idle_inv w \<Longrightarrow> idle_inv (stop w)"
  by (cases "isActive (state w)") (simp_all add: stop_active stop_inactive idle_inv_def)

lemma idle_inv_handleSessionTimeout: "idle_inv w \<Longrightarrow> idle_inv (handleSessionTimeout w)"
proof -
  assume "idle_inv w"
  then have "idle_inv (stop w)" by (rule idle_inv_stop)
  moreover have "idle_inv (handleSessionTimeout w) = idle_inv (stop w)"
    by (rule idle_inv_cong) (simp add: handleSessionTimeout_eq)
  ultimately show ?thesis by simp
qed

lemma idle_inv_periodicCheck: "idle_inv w \<Longrightarrow> idle_inv (periodicCheck now w)"
proof -
  assume i: "idle_inv w"
  have "idle_inv (validateSessionWithBackend w) = idle_inv w"
    by (rule idle_inv_cong) (simp add: validateSessionWithBackend_def)
  then show ?thesis
    using i by (simp add: periodicCheck_def Let_def idle_inv_handleSessionTimeout)
qed

lemma pending_timeout_active:
  assumes "timers_inv w" "idle_inv w" "(h, t) \<in> set (timers w)" "\<not> is_periodic t"
  shows "isActive (state w)"
proof (rule ccontr)
  assume "\<not> isActive (state w)"
  then have "\<not> owned (state w) h"
    using assms(2) by (simp add: idle_inv_def owned_def)
  then have "is_periodic t"
    using assms(1,3) by (fastforce simp: timers_inv_iff)
  then show False using assms(4) by simp
qed

lemma idle_inv_fire:
  assumes "timers_inv w" "idle_inv w"
  shows "idle_inv (fire h c now w)"
proof (cases "map_of (timers w) h")
  case None
  then show ?thesis using assms(2) by (simp add: fire_def)
next
  case (Some t)
  then have mem: "(h, t) \<in> set (timers w)"
    by (rule map_of_SomeD)
  have rm: "idle_inv (remove_timer h w) = idle_inv w"
    by (rule idle_inv_cong) (simp add: remove_timer_def)
  show ?thesis
  proof (cases t)
    case (WarningTimeout ms)
    then have act: "isActive (state w)"
      using pending_timeout_active [OF assms mem] by (simp add: is_periodic_simps)
    let ?w1 = "(remove_timer h w)\<lparr>state := (state (remove_timer h w))\<lparr>warningShown := True\<rparr>\<rparr>"
    have a1: "isActive (state ?w1)"
      using act by (simp add: remove_timer_def)
    have "idle_inv (extendSession now ?w1)"
      using a1 by (simp add: extendSession_eq idle_inv_def)
    moreover have "idle_inv (handleSessionTimeout ?w1)"
      using a1 by (simp add: idle_inv_handleSessionTimeout idle_inv_active)
    ultimately show ?thesis
      using Some WarningTimeout rm assms(2)
      by (simp add: fire_def showTimeoutWarning_def Let_def)
  next
    case (SessionTimeout ms)
    then show ?thesis
      using Some rm assms(2) by (simp add: fire_def idle_inv_handleSessionTimeout)
  next
    case (PeriodicCheck ms)
    then show ?thesis
      using Some assms(2) by (simp add: fire_def idle_inv_periodicCheck)
  qed
qed

lemma idle_inv_updateConfig: "idle_inv w \<Longrightarrow> idle_inv (updateConfig p w)"
  by (cases "isActive (state w)")
     (simp_all add: updateConfig_def Let_def scheduleTimeouts_eq idle_inv_def)

lemma idle_inv_step:
  assumes "timers_inv w" "idle_inv w"
    and ok: "case e of DomEvent ev now \<Rightarrow> isActive (state w)
                     | ExtendSession now \<Rightarrow> isActive (state w) | _ \<Rightarrow> True"
  shows "idle_inv (step w e)"
proof (cases e)
  case (Start now)
  then show ?thesis by (simp add: idle_inv_active isActive_start)
next
  case Stop
  then show ?thesis using assms(2) by (simp add: idle_inv_stop)
next
  case (DomEvent ev now)
  then show ?thesis using ok by (simp add: idle_inv_active isActive_dispatchEvent)
next
  case (TimerFires h c now)
  then show ?thesis using assms(1,2) by (simp add: idle_inv_fire)
next
  case (ExtendSession now)
  then show ?thesis using ok by (simp add: extendSession_eq idle_inv_def)
next
  case (UpdateConfig p)
  then show ?thesis using assms(2) by (simp add: idle_inv_updateConfig)
next
  case (AddListener cb)
  have "idle_inv (addListener cb w) = idle_inv w"
    by (rule idle_inv_cong) (simp add: addListener_def)
  then show ?thesis using AddListener assms(2) by simp
next
  case (RemoveListener cb)
  have "idle_inv (removeListener cb w) = idle_inv w"
    by (rule idle_inv_cong) (simp add: removeListener_def)
  then show ?thesis using RemoveListener assms(2) by simp
next
  case (GetSessionInfo now)
  then show ?thesis using assms(2) by (simp add: getSessionInfo_def Let_def)
next
  case (LoginStored a r u)
  have "idle_inv (login_store a r u w) = idle_inv w"
    by (rule idle_inv_cong) (simp add: login_store_def setItem_def)
  then show ?thesis using LoginStored assms(2) by simp
next
  case Logout
  have "idle_inv (logout w) = idle_inv w"
    by (rule idle_inv_cong) (simp add: logout_def post_def removeItem_def)
  then show ?thesis using Logout assms(2) by simp
qed

lemma idle_inv_run:
  "timers_inv w \<Longrightarrow> idle_inv w \<Longrightarrow> admissible w evs \<Longrightarrow> idle_inv (run evs w)"
proof (induction evs arbitrary: w)
  case Nil
  then show ?case by (simp add: run_def)
next
  case (Cons e evs)
  have a: "timers_inv (step w e)"
    using Cons.prems(1) by (rule timers_inv_step)
  have b: "idle_inv (step w e)"
    using Cons.prems by (intro idle_inv_step) simp_all
  have c: "admissible (step w e) evs"
    using Cons.prems(3) by simp
  have "idle_inv (run evs (step w e))"
    using a b c by (rule Cons.IH)
  then show ?case by (simp add: run_def)
qed

lemma idle_inv_initial: "idle_inv (initial t0 store)"
  by (simp add: idle_inv_def initial_def)

section \<open>Stopping and expiry\<close>

lemma stop_idempotent: "stop (stop w) = stop w"
proof (cases "isActive (state w)")
  case True
  then have "\<not> isActive (state (stop w))"
    by (simp add: stop_active)
  then show ?thesis by (rule stop_inactive)
next
  case False
  then show ?thesis by (simp add: stop_inactive)
qed

lemma localStorage_stop: "localStorage (stop w) = localStorage w"
  by (cases "isActive (state w)") (simp_all add: stop_active stop_inactive)

lemma timers_stop_active:
  assumes "timers_inv w" "isActive (state w)"
  shows "timers (stop w) = filter (\<lambda>e. is_periodic (snd e)) (timers w)"
proof -
  have "filter (\<lambda>e. \<not> owned (state w) (fst e)) (timers w)
          = filter (\<lambda>e. is_periodic (snd e)) (timers w)"
    using assms(1) by (intro filter_cong) (simp_all add: timers_inv_iff)
  then show ?thesis
    by (simp add: stop_active [OF assms(2)])
qed

lemma timers_inv_reachable: "timers_inv (run evs (initial t0 store))"
  by (rule timers_inv_run) (rule timers_inv_initial)

lemma all_periodic_when_idle:
  assumes "timers_inv w" "\<not> isActive (state w)" "idle_inv w"
  shows "list_all (\<lambda>e. is_periodic (snd e)) (timers w)"
proof -
  have "\<And>h. \<not> owned (state w) h"
    using assms(2,3) by (simp add: idle_inv_def owned_def)
  then show ?thesis
    using assms(1) by (simp add: timers_inv_iff list_all_iff)
qed

text \<open>
  C4, as the code has it. In every state a run can reach, \<open>stop()\<close> on an active manager
  returns with \<open>isActive\<close> false, both timeout handles null and the warning timeout and
  the session timeout cancelled: the timers still active are exactly the periodic check
  intervals, which it does not cancel. On an inactive manager \<open>stop()\<close> changes nothing, so
  a second \<open>stop()\<close> in a row is a no-op.
\<close>

theorem C4_stop_cancels_the_timeouts:
  "w = run evs (initial t0 store) \<Longrightarrow>
   (isActive (state w) \<longrightarrow>
      \<not> isActive (state (stop w)) \<and>
      timeoutId (state (stop w)) = None \<and>
      warningTimeoutId (state (stop w)) = None \<and>
      timers (stop w) = filter (\<lambda>e. is_periodic (snd e)) (timers w)) \<and>
   (\<not> isActive (state w) \<longrightarrow> stop w = w) \<and>
   stop (stop w) = stop w"
proof -
  assume w: "w = run evs (initial t0 store)"
  have i: "timers_inv w"
    unfolding w by (rule timers_inv_reachable)
  show ?thesis
  proof (intro conjI impI)
    assume a: "isActive (state w)"
    show "\<not> isActive (state (stop w))" "timeoutId (state (stop w)) = None"
         "warningTimeoutId (state (stop w)) = None"
      by (simp_all add: stop_active [OF a])
    show "timers (stop w) = filter (\<lambda>e. is_periodic (snd e)) (timers w)"
      using i a by (rule timers_stop_active)
  next
    assume "\<not> isActive (state w)"
    then show "stop w = w" by (rule stop_inactive)
  next
    show "stop (stop w) = stop w" by (rule stop_idempotent)
  qed
qed

lemma run_start: "run [Start 0] (initial 0 stored_session) = active_world"
  by (simp add: run_def active_world_def)

theorem C4_stop_witness:
  "isActive (state active_world) \<and>
   timeoutId (state (stop active_world)) = None \<and>
   timers (stop active_world) = [(3, PeriodicCheck 300000)] \<and>
   stop (stop active_world) = stop active_world"
proof -
  have a: "isActive (state active_world)"
    by (simp add: active_world_state)
  show ?thesis
    using C4_stop_cancels_the_timeouts [OF run_start [symmetric]] a
    by (simp add: active_world_timers is_periodic_simps)
qed

text \<open>
  After \<open>start()\<close> and \<open>stop()\<close> the periodic check interval that \<open>start()\<close> set up is
  still active.
\<close>

theorem C4_interval_survives_stop_counterexample:
  "map_of (timers (stop active_world)) 3 = Some (PeriodicCheck 300000)"
proof -
  have a: "isActive (state active_world)"
    by (simp add: active_world_state)
  show ?thesis
    by (simp add: stop_active [OF a] active_world_timers active_world_state owned_def)
qed

lemma location_handleSessionTimeout:
  "location (handleSessionTimeout w) = location w @ [''/login'']"
  by (cases "isActive (state w)")
     (simp_all add: handleSessionTimeout_eq stop_active stop_inactive)

lemma periodicCheck_inactive: "\<not> isActive (state w) \<Longrightarrow> periodicCheck now w = w"
  by (simp add: periodicCheck_def)

lemma inactive_handleSessionTimeout: "\<not> isActive (state (handleSessionTimeout w))"
  by (cases "isActive (state w)")
     (simp_all add: handleSessionTimeout_eq stop_active stop_inactive)

lemma timers_handleSessionTimeout: "timers (handleSessionTimeout w) = timers (stop w)"
  by (simp add: handleSessionTimeout_eq)

lemma fire_only_periodic:
  assumes "list_all (\<lambda>e. is_periodic (snd e)) (timers w)" "\<not> isActive (state w)"
  shows "fire h c now w = w"
proof (cases "map_of (timers w) h")
  case None
  then show ?thesis by (simp add: fire_def)
next
  case (Some t)
  then have "(h, t) \<in> set (timers w)"
    by (rule map_of_SomeD)
  then have "is_periodic t"
    using assms(1) by (auto simp: list_all_iff)
  then obtain ms where "t = PeriodicCheck ms"
    by (cases t) (simp_all add: is_periodic_simps)
  then show ?thesis
    using Some assms(2) by (simp add: fire_def periodicCheck_inactive)
qed

text \<open>
  C5, as the code has it. For an active manager in any state a run can reach: when the
  session timeout fires, the periodic check that runs next changes nothing, and when the
  periodic check finds the session timed out, a timer that fires next changes nothing; in
  both orders \<open>window.location.href\<close> is assigned once. The once-only behaviour lies in
  the triggers (the periodic check returns at once on an inactive manager);
  \<open>handleSessionTimeout\<close> itself redirects whenever it runs.
\<close>

theorem C5_one_redirect_per_expiry:
  "w = run evs (initial t0 store) \<Longrightarrow> isActive (state w) \<Longrightarrow>
   (map_of (timers w) h = Some (SessionTimeout ms) \<longrightarrow>
      location (periodicCheck now' (fire h c now w)) = location w @ [''/login'']) \<and>
   (timeoutMinutes (config w) * 60 * 1000 \<le> now - lastActivity (state w) \<longrightarrow>
      location (fire h c now' (periodicCheck now w)) = location w @ [''/login'']) \<and>
   (\<not> isActive (state v) \<longrightarrow> periodicCheck now v = v) \<and>
   location (handleSessionTimeout v) = location v @ [''/login'']"
proof -
  assume w: "w = run evs (initial t0 store)" and a: "isActive (state w)"
  have i: "timers_inv w"
    unfolding w by (rule timers_inv_reachable)
  show ?thesis
  proof (intro conjI impI)
    assume "map_of (timers w) h = Some (SessionTimeout ms)"
    then have f: "fire h c now w = handleSessionTimeout (remove_timer h w)"
      by (simp add: fire_def)
    have "periodicCheck now' (fire h c now w) = fire h c now w"
      unfolding f by (rule periodicCheck_inactive) (rule inactive_handleSessionTimeout)
    then show "location (periodicCheck now' (fire h c now w)) = location w @ [''/login'']"
      by (simp add: f location_handleSessionTimeout remove_timer_def)
  next
    assume "timeoutMinutes (config w) * 60 * 1000 \<le> now - lastActivity (state w)"
    then have p: "periodicCheck now w = handleSessionTimeout w"
      using a by (simp add: periodicCheck_def)
    have "timers (handleSessionTimeout w) = filter (\<lambda>e. is_periodic (snd e)) (timers w)"
      using timers_stop_active [OF i a] by (simp add: timers_handleSessionTimeout)
    then have "list_all (\<lambda>e. is_periodic (snd e)) (timers (handleSessionTimeout w))"
      by (simp add: list_all_iff)
    then have "fire h c now' (handleSessionTimeout w) = handleSessionTimeout w"
      by (rule fire_only_periodic) (rule inactive_handleSessionTimeout)
    then show "location (fire h c now' (periodicCheck now w)) = location w @ [''/login'']"
      by (simp add: p location_handleSessionTimeout)
  next
    assume "\<not> isActive (state v)"
    then show "periodicCheck now v = v" by (rule periodicCheck_inactive)
  next
    show "location (handleSessionTimeout v) = location v @ [''/login'']"
      by (rule location_handleSessionTimeout)
  qed
qed

theorem C5_one_redirect_witness:
  "map_of (timers active_world) 2 = Some (SessionTimeout 28800000) \<and>
   location (periodicCheck 28800001 (fire 2 False 28800000 active_world)) = [''/login''] \<and>
   location (fire 2 False 28800001 (periodicCheck 28800000 active_world)) = [''/login'']"
proof -
  have a: "isActive (state active_world)"
    by (simp add: active_world_state)
  have m: "map_of (timers active_world) 2 = Some (SessionTimeout 28800000)"
    by (simp add: active_world_timers)
  have d: "timeoutMinutes (config active_world) * 60 * 1000
             \<le> 28800000 - lastActivity (state active_world)"
    by (simp add: active_world_state active_world_rest default_config_def)
  have l: "location active_world = []"
    by (simp add: active_world_rest)
  note t = C5_one_redirect_per_expiry [OF run_start [symmetric] a,
             where h = 2 and ms = 28800000 and now' = 28800001 and c = False
               and now = 28800000 and v = active_world]
  show ?thesis
    using t m d l by simp
qed

text \<open>
  \<open>handleSessionTimeout\<close> on a manager that is already stopped is not a no-op: it shows
  the alert and redirects.
\<close>

theorem C5_expiry_of_stopped_session_counterexample:
  "\<not> isActive (state (stop active_world)) \<and>
   location (stop active_world) = [] \<and>
   location (handleSessionTimeout (stop active_world)) = [''/login''] \<and>
   alerts (handleSessionTimeout (stop active_world)) = 1"
proof -
  have a: "isActive (state active_world)"
    by (simp add: active_world_state)
  have i: "\<not> isActive (state (stop active_world))"
    by (simp add: stop_active [OF a])
  have l: "location (stop active_world) = []" "alerts (stop active_world) = 0"
    by (simp_all add: stop_active [OF a] active_world_rest)
  show ?thesis
    using i l by (simp add: handleSessionTimeout_eq stop_inactive [OF i])
qed

text \<open>
  C3, as the code has it. In every state reached by a run in which activity events and
  \<open>extendSession()\<close> calls arrive only while the manager is active, an inactive manager
  holds no timeout handle and the only timers still active are periodic check intervals.
  Nothing follows for the stored token: \<open>stop()\<close> leaves \<open>localStorage\<close> as it is.
\<close>

theorem C3_inactive_manager:
  "w = run evs (initial t0 store) \<Longrightarrow> admissible (initial t0 store) evs \<Longrightarrow>
   \<not> isActive (state w) \<Longrightarrow>
   timeoutId (state w) = None \<and> warningTimeoutId (state w) = None \<and>
   list_all (\<lambda>e. is_periodic (snd e)) (timers w) \<and>
   localStorage (stop v) = localStorage v"
proof -
  assume w: "w = run evs (initial t0 store)"
    and adm: "admissible (initial t0 store) evs"
    and ina: "\<not> isActive (state w)"
  have i: "timers_inv w"
    unfolding w by (rule timers_inv_reachable)
  have j: "idle_inv w"
    unfolding w using timers_inv_initial idle_inv_initial adm by (rule idle_inv_run)
  have "timeoutId (state w) = None" "warningTimeoutId (state w) = None"
    using j ina by (simp_all add: idle_inv_def)
  moreover have "list_all (\<lambda>e. is_periodic (snd e)) (timers w)"
    using i ina j by (rule all_periodic_when_idle)
  ultimately show ?thesis
    by (simp add: localStorage_stop)
qed

lemma run_login_start_stop:
  "run [LoginStored ''access'' ''refresh'' admin_user, Start 0, Stop] (initial 0 Map.empty)
     = stop active_world"
proof -
  have "login_store ''access'' ''refresh'' admin_user (initial 0 Map.empty)
          = initial 0 stored_session"
    by (simp add: login_store_def setItem_def initial_def stored_session_def
                  tokenKey_def refreshTokenKey_def userKey_def)
  then show ?thesis
    by (simp add: run_def active_world_def)
qed

theorem C3_inactive_manager_witness:
  "\<not> isActive (state (stop active_world)) \<and>
   timeoutId (state (stop active_world)) = None \<and>
   warningTimeoutId (state (stop active_world)) = None \<and>
   list_all (\<lambda>e. is_periodic (snd e)) (timers (stop active_world))"
proof -
  have a: "isActive (state active_world)"
    by (simp add: active_world_state)
  have i: "\<not> isActive (state (stop active_world))"
    by (simp add: stop_active [OF a])
  have adm: "admissible (initial 0 Map.empty)
               [LoginStored ''access'' ''refresh'' admin_user, Start 0, Stop]"
    by simp
  show ?thesis
    using C3_inactive_manager [OF run_login_start_stop [symmetric] adm i] i by simp
qed

text \<open>
  Login, \<open>start()\<close>, \<open>stop()\<close>: the manager is inactive, the periodic check interval is
  active and the access token is stored.
\<close>

theorem C3_stopped_with_interval_and_token_counterexample:
  "\<not> isActive (state (run [LoginStored ''access'' ''refresh'' admin_user, Start 0, Stop]
                          (initial 0 Map.empty))) \<and>
   timers (run [LoginStored ''access'' ''refresh'' admin_user, Start 0, Stop]
             (initial 0 Map.empty)) = [(3, PeriodicCheck 300000)] \<and>
   localStorage (run [LoginStored ''access'' ''refresh'' admin_user, Start 0, Stop]
                   (initial 0 Map.empty)) ''adminToken'' = Some (Text ''access'')"
proof -
  have a: "isActive (state active_world)"
    by (simp add: active_world_state)
  show ?thesis
    unfolding run_login_start_stop
    by (simp add: stop_active [OF a] active_world_timers active_world_state active_world_rest
                  owned_def stored_session_def)
qed

section \<open>Activity after stop\<close>

lemma active_world_docListeners:
  "docListeners active_world =
     [(''mousedown'', 0), (''mousemove'', 1), (''keypress'', 2), (''scroll'', 3),
      (''touchstart'', 4), (''click'', 5), (''focus'', 6), (''blur'', 7)]"
  by (simp add: active_world_def start_inactive initial_def attach_listeners_def
                default_config_def bind_handleActivity_def addEventListener_def)

lemma stopped_world_docListeners:
  "docListeners (stop active_world) = docListeners active_world"
proof -
  have a: "isActive (state active_world)"
    by (simp add: active_world_state)
  have n: "nextFunction active_world = 8"
    by (simp add: active_world_def start_inactive initial_def attach_listeners_def
                  default_config_def bind_handleActivity_def addEventListener_def)
  show ?thesis
    by (simp add: stop_active [OF a] detach_listeners_def active_world_rest default_config_def
                  bind_handleActivity_def removeEventListener_def active_world_docListeners n)
qed

text \<open>
  Why the runs of C3 keep activity away from an inactive manager: \<open>stop()\<close> hands
  \<open>removeEventListener\<close> a function that \<open>bind\<close> has just made, so no listener is
  removed, and a click five seconds after \<open>stop()\<close> still reaches \<open>handleActivity\<close>,
  which schedules a session timeout for the inactive manager.
\<close>

lemma activity_after_stop_rearms_timeouts:
  "\<not> isActive (state (dispatchEvent ''click'' 5000 (stop active_world))) \<and>
   timeoutId (state (dispatchEvent ''click'' 5000 (stop active_world))) = Some 5 \<and>
   map_of (timers (dispatchEvent ''click'' 5000 (stop active_world))) 5
     = Some (SessionTimeout 28800000)"
proof -
  have a: "isActive (state active_world)"
    by (simp add: active_world_state)
  have d: "dispatchEvent ''click'' 5000 (stop active_world)
             = handleActivity 5000 (stop active_world)"
    by (simp add: dispatchEvent_def stopped_world_docListeners active_world_docListeners)
  have t: "\<not> 5000 - lastActivity (state (stop active_world)) < 1000"
    by (simp add: stop_active [OF a] active_world_state)
  show ?thesis
    unfolding d handleActivity_accepted [OF t]
    by (simp add: stop_active [OF a] active_world_state active_world_rest active_world_timers
                  owned_def default_config_def)
qed

end
